theory Spec2Isabelle
  imports Complex_Main "HOL-Library.AList" "HOL-Library.Multiset"
begin

section \<open>Python values\<close>

text \<open>
  The pipeline of \<^verbatim>\<open>ichnaea/data/export.py\<close> moves JSON-decoded values around:
  envelopes, reports and the entries of their transmitter lists are Python dictionaries
  with string keys, read with \<^verbatim>\<open>d[k]\<close> and \<^verbatim>\<open>d.get(k)\<close>.
  A value is one of the shapes \<^verbatim>\<open>simplejson.loads\<close> produces. Numbers are
  rationals: the code of this module never tells an integer from a float, and Python
  compares and hashes \<^verbatim>\<open>1\<close> and \<^verbatim>\<open>1.0\<close> as equal. A dictionary is an
  association list read with \<open>map_of\<close> and written with \<open>AList.update\<close>, which
  keeps the insertion order. A character of a \<open>string\<close> stands for one character of
  the Python string.
\<close>

datatype json =
    JNull
  | JBool bool
  | JNum rat
  | JStr string
  | JList "json list"
  | JObj "(string \<times> json) list"

type_synonym dict = "(string \<times> json) list"

text \<open>The exceptions the modelled code can raise by itself.\<close>

datatype error = KeyError | TypeError | AttributeError | ValueError

text \<open>Sequencing of a computation that may raise: the first exception wins.\<close>

definition bind_err :: "error + 'a \<Rightarrow> ('a \<Rightarrow> error + 'b) \<Rightarrow> error + 'b" where
  "bind_err m f = (case m of Inl e \<Rightarrow> Inl e | Inr x \<Rightarrow> f x)"

text \<open>Truth value of a Python object used as a condition (\<^verbatim>\<open>if x:\<close>).\<close>

fun truthy :: "json \<Rightarrow> bool" where
  "truthy JNull = False"
| "truthy (JBool b) = b"
| "truthy (JNum r) = (r \<noteq> 0)"
| "truthy (JStr s) = (s \<noteq> [])"
| "truthy (JList xs) = (xs \<noteq> [])"
| "truthy (JObj d) = (d \<noteq> [])"

text \<open>\<^verbatim>\<open>d.get(k)\<close> on a dictionary: \<^verbatim>\<open>None\<close> for a missing key.\<close>

definition dict_get :: "dict \<Rightarrow> string \<Rightarrow> json" where
  "dict_get d k = (case map_of d k of None \<Rightarrow> JNull | Some v \<Rightarrow> v)"

text \<open>
  \<^verbatim>\<open>x.get(k)\<close> on any value: only a dictionary has the method, everything else
  raises \<^verbatim>\<open>AttributeError\<close>.
\<close>

fun py_get :: "json \<Rightarrow> string \<Rightarrow> error + json" where
  "py_get (JObj d) k = Inr (dict_get d k)"
| "py_get _ k = Inl AttributeError"

text \<open>
  \<^verbatim>\<open>x[k]\<close> with a string key: \<^verbatim>\<open>KeyError\<close> for a missing key of a
  dictionary, \<^verbatim>\<open>TypeError\<close> for every other value.
\<close>

fun py_getitem :: "json \<Rightarrow> string \<Rightarrow> error + json" where
  "py_getitem (JObj d) k = (case map_of d k of None \<Rightarrow> Inl KeyError | Some v \<Rightarrow> Inr v)"
| "py_getitem _ k = Inl TypeError"

text \<open>
  \<^verbatim>\<open>for x in v\<close>: a list gives its elements, a string its characters, a dictionary
  its keys; \<^verbatim>\<open>None\<close>, booleans and numbers raise \<^verbatim>\<open>TypeError\<close>.
\<close>

fun py_iter :: "json \<Rightarrow> error + json list" where
  "py_iter (JList xs) = Inr xs"
| "py_iter (JStr s) = Inr (map (\<lambda>c. JStr [c]) s)"
| "py_iter (JObj d) = Inr (map JStr (remdups (map fst d)))"
| "py_iter _ = Inl TypeError"

text \<open>
  A value used as a dictionary key or set element must be hashable (lists and
  dictionaries are not), and Python identifies keys that compare equal:
  \<^verbatim>\<open>True == 1\<close> and \<^verbatim>\<open>False == 0\<close>. \<open>hash_key\<close> gives the representative
  under which a key is stored.
\<close>

fun hash_key :: "json \<Rightarrow> error + json" where
  "hash_key (JBool b) = Inr (JNum (if b then 1 else 0))"
| "hash_key (JList xs) = Inl TypeError"
| "hash_key (JObj d) = Inl TypeError"
| "hash_key v = Inr v"

text \<open>
  \<^verbatim>\<open>defaultdict(list)\<close>: \<^verbatim>\<open>d[k].append(v)\<close> and \<^verbatim>\<open>d[k].extend(vs)\<close>
  create the list of a new key at the end of the dictionary.
\<close>

fun dd_extend :: "('k \<times> 'v list) list \<Rightarrow> 'k \<Rightarrow> 'v list \<Rightarrow> ('k \<times> 'v list) list" where
  "dd_extend [] k vs = [(k, vs)]"
| "dd_extend ((k', ws) # d) k vs =
     (if k' = k then (k', ws @ vs) # d else (k', ws) # dd_extend d k vs)"

definition dd_append :: "('k \<times> 'v list) list \<Rightarrow> 'k \<Rightarrow> 'v \<Rightarrow> ('k \<times> 'v list) list" where
  "dd_append d k v = dd_extend d k [v]"


section \<open>Export queues\<close>

text \<open>
  \<^verbatim>\<open>ExportQueue\<close> and its four subclasses differ in \<^verbatim>\<open>metadata\<close>,
  \<^verbatim>\<open>partitions\<close> and \<^verbatim>\<open>queue_key\<close>; the class of a queue object is kept in
  the field \<open>q_klass\<close>.
\<close>

datatype queue_class =
  ExportQueue | DummyExportQueue | HTTPSExportQueue | InternalExportQueue | S3ExportQueue

datatype uploader_class = DummyUploader | GeosubmitUploader | InternalUploader | S3Uploader

record export_queue =
  q_klass :: queue_class
  q_name :: string
  q_url :: string
  q_batch :: int
  q_skip_keys :: "string list"
  q_uploader_type :: "uploader_class option"
  q_compress :: bool

text \<open>
  \<^verbatim>\<open>WHITESPACE = re.compile('\s', flags=re.UNICODE)\<close>: the whitespace characters
  within the range of \<open>char\<close>.
\<close>

definition WHITESPACE :: "char \<Rightarrow> bool" where
  "WHITESPACE c = (of_char c \<in> set [9, 10, 11, 12, 13, 28, 29, 30, 31, 32, 133, 160 :: nat])"

text \<open>\<^verbatim>\<open>WHITESPACE.split(s)\<close>: one cut at every whitespace character.\<close>

fun WHITESPACE_split :: "string \<Rightarrow> string list" where
  "WHITESPACE_split [] = [[]]"
| "WHITESPACE_split (c # cs) =
     (if WHITESPACE c then [] # WHITESPACE_split cs
      else (case WHITESPACE_split cs of
              [] \<Rightarrow> [[c]]
            | w # ws \<Rightarrow> (c # w) # ws))"

text \<open>The table \<^verbatim>\<open>queue_types\<close> of \<^verbatim>\<open>configure_queue\<close>.\<close>

definition queue_types :: "(string \<times> queue_class \<times> uploader_class) list" where
  "queue_types =
     [(''dummy'', DummyExportQueue, DummyUploader),
      (''http'', HTTPSExportQueue, GeosubmitUploader),
      (''https'', HTTPSExportQueue, GeosubmitUploader),
      (''internal'', InternalExportQueue, InternalUploader),
      (''s3'', S3ExportQueue, S3Uploader)]"

text \<open>
  \<^verbatim>\<open>ExportQueue.configure_queue(cls, key, redis_client, settings, compress)\<close>.
  The settings are the strings of one configuration section. Two library functions are
  parameters: \<open>urlparse_scheme url\<close> is \<^verbatim>\<open>urlparse(url).scheme\<close>, and \<open>py_int s\<close>
  is \<^verbatim>\<open>int(s)\<close>, which raises \<^verbatim>\<open>ValueError\<close> (here \<open>None\<close>) on a string that is
  not a number. The class method is called on the class \<open>cls\<close>.
\<close>

definition configure_queue ::
  "(string \<Rightarrow> string) \<Rightarrow> (string \<Rightarrow> int option) \<Rightarrow>
   queue_class \<Rightarrow> string \<Rightarrow> (string \<times> string) list \<Rightarrow> bool \<Rightarrow> error + export_queue" where
  "configure_queue urlparse_scheme py_int cls key settings compress =
     (let url = (case map_of settings ''url'' of None \<Rightarrow> '''' | Some u \<Rightarrow> u);
          scheme = urlparse_scheme url
      in case (case map_of settings ''batch'' of None \<Rightarrow> Some 0 | Some b \<Rightarrow> py_int b) of
           None \<Rightarrow> Inl ValueError
         | Some batch \<Rightarrow>
             (let skip_keys = WHITESPACE_split
                    (case map_of settings ''skip_keys'' of None \<Rightarrow> '''' | Some s \<Rightarrow> s);
                  skip_keys = filter (\<lambda>skip_key. skip_key \<noteq> []) skip_keys;
                  (klass, uploader_type) =
                    (case map_of queue_types scheme of
                       None \<Rightarrow> (cls, None)
                     | Some (k, u) \<Rightarrow> (k, Some u))
              in Inr \<lparr>q_klass = klass, q_name = key, q_url = url, q_batch = batch,
                      q_skip_keys = skip_keys, q_uploader_type = uploader_type,
                      q_compress = compress\<rparr>))"

text \<open>\<^verbatim>\<open>ExportQueue.metadata\<close>: only the internal queue keeps the envelope.\<close>

definition metadata :: "export_queue \<Rightarrow> bool" where
  "metadata q = (q_klass q = InternalExportQueue)"

text \<open>
  \<^verbatim>\<open>export_allowed(api_key)\<close> is \<^verbatim>\<open>api_key not in self.skip_keys\<close>: the skip
  keys are strings, so only a string can be among them.
\<close>

definition export_allowed :: "export_queue \<Rightarrow> json \<Rightarrow> bool" where
  "export_allowed q api_key =
     (case api_key of JStr s \<Rightarrow> s \<notin> set (q_skip_keys q) | _ \<Rightarrow> True)"

text \<open>
  \<^verbatim>\<open>queue_key(api_key)\<close>: the name of the queue, except for \<^verbatim>\<open>S3ExportQueue\<close>,
  which appends the key, or \<^verbatim>\<open>no_key\<close> for a false one; appending a true value that
  is not a string raises \<^verbatim>\<open>TypeError\<close>.
\<close>

definition queue_key :: "export_queue \<Rightarrow> json \<Rightarrow> error + string" where
  "queue_key q api_key =
     (if q_klass q = S3ExportQueue then
        (if \<not> truthy api_key then Inr (q_name q @ '':'' @ ''no_key'')
         else (case api_key of
                 JStr s \<Rightarrow> Inr (q_name q @ '':'' @ s)
               | _ \<Rightarrow> Inl TypeError))
      else Inr (q_name q))"


section \<open>The uploader's retry loop\<close>

text \<open>
  One call of \<^verbatim>\<open>self.upload(data)\<close> returns, raises an exception of the tuple
  \<^verbatim>\<open>_retriable\<close>, or raises another exception.
\<close>

datatype upload_outcome = Uploaded | RetriableError | OtherError

text \<open>How \<^verbatim>\<open>BaseReportUploader.__call__\<close> ends.\<close>

datatype job_end = Returned | Raised

record job_result =
  job_end :: job_end
  attempts :: nat
  sleeps :: "rat list"
  rearmed :: bool

definition retries :: nat where
  "retries = 3"

definition retry_wait :: rat where
  "retry_wait = 1"

text \<open>
  The loop \<^verbatim>\<open>for i in range(self._retries)\<close>, from index \<open>i\<close> with \<open>n\<close> rounds
  left. \<open>upload i\<close> is the outcome of the call made in round \<open>i\<close>. The result is the
  final value of \<^verbatim>\<open>success\<close> (\<open>None\<close> when an exception left the loop), the number
  of calls made and the arguments of \<^verbatim>\<open>time.sleep\<close> in order.
\<close>

fun retry_loop :: "(nat \<Rightarrow> upload_outcome) \<Rightarrow> nat \<Rightarrow> nat \<Rightarrow> bool option \<times> nat \<times> rat list" where
  "retry_loop upload i 0 = (Some False, 0, [])"
| "retry_loop upload i (Suc n) =
     (case upload i of
        Uploaded \<Rightarrow> (Some True, 1, [])
      | RetriableError \<Rightarrow>
          (let (success, calls, slept) = retry_loop upload (Suc i) n
           in (success, Suc calls, retry_wait * (of_nat i ^ 2 + 1) # slept))
      | OtherError \<Rightarrow> (None, 1, []))"

text \<open>
  \<^verbatim>\<open>BaseReportUploader.__call__\<close> for a job on queue \<open>q\<close>. \<open>items\<close> is what
  \<^verbatim>\<open>dequeue\<close> returned, \<open>upload i data\<close> the outcome of the upload of round \<open>i\<close>,
  \<open>ready\<close> the answer of \<^verbatim>\<open>export_queue.ready\<close> after the loop. The payload is the
  value handed to \<^verbatim>\<open>simplejson.dumps\<close>.
\<close>

definition payload :: "export_queue \<Rightarrow> json list \<Rightarrow> error + json" where
  "payload q items =
     (if metadata q then Inr (JList items)
      else bind_err
             (fold (\<lambda>item acc. bind_err acc (\<lambda>rs. bind_err (py_getitem item ''report'')
                                  (\<lambda>r. Inr (rs @ [r])))) items (Inr []))
             (\<lambda>rs. Inr (JObj [(''items'', JList rs)])))"

definition uploader_call ::
  "export_queue \<Rightarrow> json list \<Rightarrow> (nat \<Rightarrow> json \<Rightarrow> upload_outcome) \<Rightarrow> bool \<Rightarrow> job_result" where
  "uploader_call q items upload ready =
     (if items = [] then \<lparr>job_end = Returned, attempts = 0, sleeps = [], rearmed = False\<rparr>
      else (case payload q items of
              Inl e \<Rightarrow> \<lparr>job_end = Raised, attempts = 0, sleeps = [], rearmed = False\<rparr>
            | Inr data \<Rightarrow>
                (case retry_loop (\<lambda>i. upload i data) 0 retries of
                   (None, calls, slept) \<Rightarrow>
                     \<lparr>job_end = Raised, attempts = calls, sleeps = slept, rearmed = False\<rparr>
                 | (Some success, calls, slept) \<Rightarrow>
                     \<lparr>job_end = Returned, attempts = calls, sleeps = slept,
                      rearmed = (success \<and> ready)\<rparr>)))"


section \<open>The dispatcher of the incoming queue\<close>

text \<open>
  \<^verbatim>\<open>IncomingQueue.__call__\<close>. The first loop groups the dequeued items by
  \<^verbatim>\<open>item['api_key']\<close> in a \<^verbatim>\<open>defaultdict(list)\<close> and rebuilds each envelope
  from its three keys; a missing key raises \<^verbatim>\<open>KeyError\<close>, an unhashable
  \<^verbatim>\<open>api_key\<close> raises \<^verbatim>\<open>TypeError\<close>.
\<close>

fun group_items :: "json list \<Rightarrow> (json \<times> json list) list \<Rightarrow> error + (json \<times> json list) list" where
  "group_items [] grouped = Inr grouped"
| "group_items (item # data) grouped =
     bind_err (py_getitem item ''api_key'') (\<lambda>api_key.
     bind_err (hash_key api_key) (\<lambda>k.
     bind_err (py_getitem item ''nickname'') (\<lambda>nickname.
     bind_err (py_getitem item ''report'') (\<lambda>report.
       group_items data
         (dd_append grouped k
            (JObj [(''api_key'', api_key), (''nickname'', nickname), (''report'', report)]))))))"

text \<open>
  The second loop, for one group: every export queue that allows the key gets the items
  of the group under its queue key. An enqueue is recorded as the queue, the queue key
  and the items; the operations of one call go through one pipeline, which is not
  executed when an exception leaves the block.
\<close>

type_synonym enqueue_op = "export_queue \<times> string \<times> json list"

fun enqueue_group :: "json \<Rightarrow> json list \<Rightarrow> export_queue list \<Rightarrow> error + enqueue_op list" where
  "enqueue_group api_key items [] = Inr []"
| "enqueue_group api_key items (queue # queues) =
     (if export_allowed queue api_key then
        bind_err (queue_key queue api_key) (\<lambda>qk.
        bind_err (enqueue_group api_key items queues) (\<lambda>ops.
          Inr ((queue, qk, items) # ops)))
      else enqueue_group api_key items queues)"

fun enqueue_groups :: "(json \<times> json list) list \<Rightarrow> export_queue list \<Rightarrow> error + enqueue_op list" where
  "enqueue_groups [] export_queues = Inr []"
| "enqueue_groups ((api_key, items) # grouped) export_queues =
     bind_err (enqueue_group api_key items export_queues) (\<lambda>ops.
     bind_err (enqueue_groups grouped export_queues) (\<lambda>ops'.
       Inr (ops @ ops')))"

text \<open>
  The whole call on the dequeued \<open>data\<close>, with the configured export queues in the
  order of \<^verbatim>\<open>export_queues.values()\<close>. The re-scheduling of the task at the end
  enqueues nothing and is left out.
\<close>

definition IncomingQueue_call :: "export_queue list \<Rightarrow> json list \<Rightarrow> error + enqueue_op list" where
  "IncomingQueue_call export_queues data =
     bind_err (group_items data []) (\<lambda>grouped. enqueue_groups grouped export_queues)"


section \<open>The transform to the internal schema\<close>

text \<open>
  An element of a field map is a two-tuple of source and target name, or one string
  when the names are equal (\<^verbatim>\<open>isinstance(spec, tuple)\<close>).
\<close>

datatype field_spec = Tuple string string | Plain string

fun spec_source :: "field_spec \<Rightarrow> string" where
  "spec_source (Tuple source target) = source"
| "spec_source (Plain spec) = spec"

fun spec_target :: "field_spec \<Rightarrow> string" where
  "spec_target (Tuple source target) = target"
| "spec_target (Plain spec) = spec"

definition position_id :: "string \<times> string option" where
  "position_id = (''position'', None)"

definition position_map :: "field_spec list" where
  "position_map =
     [Tuple ''latitude'' ''lat'', Tuple ''longitude'' ''lon'', Plain ''accuracy'',
      Plain ''altitude'', Tuple ''altitudeAccuracy'' ''altitude_accuracy'', Plain ''age'',
      Plain ''heading'', Plain ''pressure'', Plain ''speed'', Plain ''source'']"

definition blue_id :: "string \<times> string" where
  "blue_id = (''bluetoothBeacons'', ''blue'')"

definition blue_map :: "field_spec list" where
  "blue_map = [Tuple ''macAddress'' ''mac'', Plain ''age'', Tuple ''signalStrength'' ''signal'']"

definition cell_id :: "string \<times> string" where
  "cell_id = (''cellTowers'', ''cell'')"

definition cell_map :: "field_spec list" where
  "cell_map =
     [Tuple ''radioType'' ''radio'', Tuple ''mobileCountryCode'' ''mcc'',
      Tuple ''mobileNetworkCode'' ''mnc'', Tuple ''locationAreaCode'' ''lac'',
      Tuple ''cellId'' ''cid'', Plain ''age'', Plain ''asu'',
      Tuple ''primaryScramblingCode'' ''psc'', Plain ''serving'',
      Tuple ''signalStrength'' ''signal'', Tuple ''timingAdvance'' ''ta'']"

definition wifi_id :: "string \<times> string" where
  "wifi_id = (''wifiAccessPoints'', ''wifi'')"

definition wifi_map :: "field_spec list" where
  "wifi_map =
     [Tuple ''macAddress'' ''mac'', Tuple ''radioType'' ''radio'', Plain ''age'',
      Plain ''channel'', Plain ''frequency'', Plain ''signalToNoiseRatio'',
      Tuple ''signalStrength'' ''signal'']"

text \<open>
  \<^verbatim>\<open>_map_dict(item_source, field_map)\<close>: the loop over the field map, with the
  dictionary \<open>value\<close> built so far.
\<close>

primrec map_dict_loop :: "json \<Rightarrow> field_spec list \<Rightarrow> dict \<Rightarrow> error + dict" where
  "map_dict_loop item_source [] value = Inr value"
| "map_dict_loop item_source (spec # field_map) value =
     bind_err (py_get item_source (spec_source spec)) (\<lambda>source_value.
       map_dict_loop item_source field_map
         (if source_value \<noteq> JNull then AList.update (spec_target spec) source_value value
          else value))"

definition map_dict :: "json \<Rightarrow> field_spec list \<Rightarrow> error + dict" where
  "map_dict item_source field_map = map_dict_loop item_source field_map []"

text \<open>\<^verbatim>\<open>report.update(value)\<close>.\<close>

definition dict_update :: "dict \<Rightarrow> dict \<Rightarrow> dict" where
  "dict_update report value = fold (\<lambda>(k, v). AList.update k v) value report"

text \<open>
  \<^verbatim>\<open>_parse_dict(item, report, key_map, field_map)\<close> returns the report it has
  updated together with its own return value.
\<close>

definition parse_dict ::
  "json \<Rightarrow> dict \<Rightarrow> string \<times> string option \<Rightarrow> field_spec list \<Rightarrow> error + dict \<times> dict" where
  "parse_dict item report key_map field_map =
     bind_err (py_get item (fst key_map)) (\<lambda>item_source.
     bind_err (if truthy item_source then map_dict item_source field_map else Inr []) (\<lambda>value.
       Inr (if value \<noteq> [] then
              (case snd key_map of
                 None \<Rightarrow> dict_update report value
               | Some target \<Rightarrow> AList.update target (JObj value) report)
            else report,
            value)))"

text \<open>\<^verbatim>\<open>item.get(key, ())\<close>: the empty tuple for a missing key.\<close>

fun py_get_default :: "json \<Rightarrow> string \<Rightarrow> error + json" where
  "py_get_default (JObj d) k = Inr (case map_of d k of None \<Rightarrow> JList [] | Some v \<Rightarrow> v)"
| "py_get_default _ k = Inl AttributeError"

text \<open>The loop of \<^verbatim>\<open>_parse_list\<close> over the elements, with the list \<open>values\<close> so far.\<close>

primrec parse_list_loop :: "json list \<Rightarrow> field_spec list \<Rightarrow> dict list \<Rightarrow> error + dict list" where
  "parse_list_loop [] field_map values = Inr values"
| "parse_list_loop (value_item # rest) field_map values =
     bind_err (map_dict value_item field_map) (\<lambda>value.
       parse_list_loop rest field_map (if value \<noteq> [] then values @ [value] else values))"

definition parse_list ::
  "json \<Rightarrow> dict \<Rightarrow> string \<times> string \<Rightarrow> field_spec list \<Rightarrow> error + dict \<times> dict list" where
  "parse_list item report key_map field_map =
     bind_err (py_get_default item (fst key_map)) (\<lambda>source.
     bind_err (py_iter source) (\<lambda>value_items.
     bind_err (parse_list_loop value_items field_map []) (\<lambda>values.
       Inr (if values \<noteq> [] then AList.update (snd key_map) (JList (map JObj values)) report
            else report,
            values))))"

text \<open>\<^verbatim>\<open>InternalTransform.__call__(item)\<close>.\<close>

definition InternalTransform_call :: "json \<Rightarrow> error + dict" where
  "InternalTransform_call item =
     bind_err (parse_dict item [] position_id position_map) (\<lambda>(report, position).
     bind_err (py_get item ''timestamp'') (\<lambda>timestamp.
     (let report = (if truthy timestamp then AList.update ''timestamp'' timestamp report
                    else report)
      in bind_err (parse_list item report blue_id blue_map) (\<lambda>(report, blues).
         bind_err (parse_list item report cell_id cell_map) (\<lambda>(report, cells).
         bind_err (parse_list item report wifi_id wifi_map) (\<lambda>(report, wifis).
           Inr (if blues \<noteq> [] \<or> cells \<noteq> [] \<or> wifis \<noteq> [] then report else [])))))))"


section \<open>The internal sink\<close>

text \<open>
  The classes of \<^verbatim>\<open>ichnaea.models\<close> and the time library are outside this module.
  The sink is modelled over any choice of them:
  \<^item> \<open>Report_create data\<close> is \<^verbatim>\<open>Report.create(**data)\<close>, \<open>None\<close> for invalid data;
  \<^item> \<open>item_create name item\<close> is \<^verbatim>\<open>report_cls.create(**item)\<close> for the report class
    of the transmitter type \<open>name\<close>;
  \<^item> \<open>combine name report item_report\<close> is \<^verbatim>\<open>obs_cls.combine(report, item_report)\<close>;
  \<^item> \<open>unique_key\<close> and \<open>better\<close> are the property and the method of an observation;
  \<^item> \<open>shard_id name ob\<close> is \<^verbatim>\<open>shard_model.shard_id(getattr(ob, shard_key))\<close>;
  \<^item> \<open>to_json\<close> is the method of an observation;
  \<^item> \<open>utc_time timestamp\<close> is
    \<^verbatim>\<open>datetime.utcfromtimestamp(timestamp / 1000.0).replace(microsecond=0, tzinfo=pytz.UTC)\<close>,
    which raises on a value that is not a number in range.
\<close>

datatype obs_type = Blue | Cell | Wifi

fun type_name :: "obs_type \<Rightarrow> string" where
  "type_name Blue = ''blue''"
| "type_name Cell = ''cell''"
| "type_name Wifi = ''wifi''"

fun queue_prefix :: "obs_type \<Rightarrow> string" where
  "queue_prefix Blue = ''update_blue_''"
| "queue_prefix Cell = ''update_cell_''"
| "queue_prefix Wifi = ''update_wifi_''"

record ('r, 'i, 'o, 'k) models =
  Report_create :: "dict \<Rightarrow> 'r option"
  item_create :: "obs_type \<Rightarrow> dict \<Rightarrow> 'i option"
  combine :: "obs_type \<Rightarrow> 'r \<Rightarrow> 'i \<Rightarrow> 'o"
  unique_key :: "'o \<Rightarrow> 'k"
  better :: "'o \<Rightarrow> 'o \<Rightarrow> bool"
  shard_id :: "obs_type \<Rightarrow> 'o \<Rightarrow> string"
  to_json :: "'o \<Rightarrow> json"
  utc_time :: "json \<Rightarrow> error + json"

text \<open>\<^verbatim>\<open>InternalUploader._format_report(item)\<close>.\<close>

definition format_report :: "('r, 'i, 'o, 'k) models \<Rightarrow> json \<Rightarrow> error + dict" where
  "format_report M item =
     bind_err (InternalTransform_call item) (\<lambda>report.
     (let timestamp = dict_get report ''timestamp'';
          report = AList.delete ''timestamp'' report
      in if truthy timestamp then
           bind_err (utc_time M timestamp) (\<lambda>dt. Inr (AList.update ''time'' dt report))
         else Inr report))"

text \<open>
  The body of the innermost loop of \<^verbatim>\<open>process_report\<close> from the unique key on:
  \<open>held\<close> is \<^verbatim>\<open>observations[name]\<close>, a dictionary from unique key to observation.
\<close>

definition hold :: "('r, 'i, 'o, 'k) models \<Rightarrow> ('k \<times> 'o) list \<Rightarrow> 'o \<Rightarrow> ('k \<times> 'o) list" where
  "hold M held item_obs =
     (let item_key = unique_key M item_obs
      in case map_of held item_key of
           None \<Rightarrow> AList.update item_key item_obs held
         | Some existing \<Rightarrow>
             if better M existing item_obs then held
             else AList.update item_key item_obs held)"

text \<open>
  The loop \<^verbatim>\<open>for item in data[name]\<close> with the counter \<^verbatim>\<open>malformed[name]\<close> and
  the dictionary \<^verbatim>\<open>observations[name]\<close>; \<^verbatim>\<open>**item\<close> needs a dictionary.
\<close>

fun process_items ::
  "('r, 'i, 'o, 'k) models \<Rightarrow> obs_type \<Rightarrow> 'r \<Rightarrow> json list \<Rightarrow> nat \<times> ('k \<times> 'o) list \<Rightarrow>
   error + nat \<times> ('k \<times> 'o) list" where
  "process_items M name report [] (malformed, held) = Inr (malformed, held)"
| "process_items M name report (item # items) (malformed, held) =
     (case item of
        JObj d \<Rightarrow>
          (case item_create M name d of
             None \<Rightarrow> process_items M name report items (malformed + 1, held)
           | Some item_report \<Rightarrow>
               process_items M name report items
                 (malformed, hold M held (combine M name report item_report)))
      | _ \<Rightarrow> Inl TypeError)"

definition process_type ::
  "('r, 'i, 'o, 'k) models \<Rightarrow> obs_type \<Rightarrow> 'r \<Rightarrow> dict \<Rightarrow> error + nat \<times> ('k \<times> 'o) list" where
  "process_type M name report data =
     (if truthy (dict_get data (type_name name)) then
        bind_err (py_iter (dict_get data (type_name name))) (\<lambda>items.
          process_items M name report items (0, []))
      else Inr (0, []))"

text \<open>
  \<^verbatim>\<open>process_report(data)\<close> returns the observations and the malformed counts, each
  by transmitter type; the two empty dictionaries returned for an invalid report read
  as no observation and no malformed entry.
\<close>

definition process_report ::
  "('r, 'i, 'o, 'k) models \<Rightarrow> dict \<Rightarrow> error + (obs_type \<Rightarrow> 'o list) \<times> (obs_type \<Rightarrow> nat)" where
  "process_report M data =
     (case Report_create M data of
        None \<Rightarrow> Inr (\<lambda>name. [], \<lambda>name. 0)
      | Some report \<Rightarrow>
          bind_err (process_type M Blue report data) (\<lambda>(malformed_blue, blue).
          bind_err (process_type M Cell report data) (\<lambda>(malformed_cell, cell).
          bind_err (process_type M Wifi report data) (\<lambda>(malformed_wifi, wifi).
            Inr (\<lambda>name. map snd (case name of Blue \<Rightarrow> blue | Cell \<Rightarrow> cell | Wifi \<Rightarrow> wifi),
                 \<lambda>name. (case name of Blue \<Rightarrow> malformed_blue | Cell \<Rightarrow> malformed_cell
                          | Wifi \<Rightarrow> malformed_wifi))))))"

text \<open>\<^verbatim>\<open>s.add(x)\<close> on a set kept in insertion order.\<close>

definition set_add :: "'a list \<Rightarrow> 'a \<Rightarrow> 'a list" where
  "set_add s x = (if x \<in> set s then s else s @ [x])"

text \<open>
  The first loop of \<^verbatim>\<open>process_reports\<close>, over the reports, with the state
  \<^verbatim>\<open>(observations, obs_count, positions, malformed_reports)\<close>; \<open>obs_count name\<close>
  is the pair of the counters \<^verbatim>\<open>upload\<close> and \<^verbatim>\<open>drop\<close>.
\<close>

type_synonym 'o reports_state =
  "(obs_type \<Rightarrow> 'o list) \<times> (obs_type \<Rightarrow> nat \<times> nat) \<times> (json \<times> json) list \<times> nat"

fun reports_loop ::
  "('r, 'i, 'o, 'k) models \<Rightarrow> dict list \<Rightarrow> 'o reports_state \<Rightarrow> error + 'o reports_state" where
  "reports_loop M [] st = Inr st"
| "reports_loop M (report # reports) (observations, obs_count, positions, malformed_reports) =
     bind_err (process_report M report) (\<lambda>(obs, malformed_obs).
     (let observations = (\<lambda>name. if obs name \<noteq> [] then observations name @ obs name
                                  else observations name);
          obs_count = (\<lambda>name. (fst (obs_count name) + (if obs name \<noteq> [] then length (obs name) else 0),
                                snd (obs_count name) + malformed_obs name));
          any_data = (obs Blue \<noteq> [] \<or> obs Cell \<noteq> [] \<or> obs Wifi \<noteq> [])
      in if any_data then
           bind_err (py_getitem (JObj report) ''lat'') (\<lambda>lat.
           bind_err (py_getitem (JObj report) ''lon'') (\<lambda>lon.
           bind_err (hash_key lat) (\<lambda>hlat.
           bind_err (hash_key lon) (\<lambda>hlon.
             reports_loop M reports
               (observations, obs_count, set_add positions (hlat, hlon), malformed_reports)))))
         else reports_loop M reports
                (observations, obs_count, positions, malformed_reports + 1)))"

text \<open>The second loop, for one transmitter type: shard the observations and encode them.\<close>

definition shard_queue ::
  "('r, 'i, 'o, 'k) models \<Rightarrow> obs_type \<Rightarrow> 'o list \<Rightarrow> (string \<times> json list) list" where
  "shard_queue M name obs =
     (if obs \<noteq> [] then
        (let sharded_obs = fold (\<lambda>ob d. dd_append d (shard_id M name ob) ob) obs []
         in fold (\<lambda>(sid, values) q.
                    dd_extend q (queue_prefix name @ sid) (map (to_json M) values))
              sharded_obs [])
      else [])"

text \<open>
  \<^verbatim>\<open>process_reports(reports, userid)\<close> returns
  \<^verbatim>\<open>(obs_queue, malformed_reports, obs_count, positions)\<close>.
\<close>

definition process_reports ::
  "('r, 'i, 'o, 'k) models \<Rightarrow> dict list \<Rightarrow> nat option \<Rightarrow>
   error + (obs_type \<Rightarrow> (string \<times> json list) list) \<times> nat \<times> (obs_type \<Rightarrow> nat \<times> nat)
           \<times> (json \<times> json) list" where
  "process_reports M reports userid =
     bind_err (reports_loop M reports (\<lambda>name. [], \<lambda>name. (0, 0), [], 0))
       (\<lambda>(observations, obs_count, positions, malformed_reports).
          Inr (\<lambda>name. shard_queue M name (observations name),
               malformed_reports, obs_count, positions))"

text \<open>
  The database session, as far as \<^verbatim>\<open>process_user\<close> uses it: the user rows by
  nickname, and the id the next new row gets.
\<close>

record session =
  user_rows :: "(string \<times> nat) list"
  next_id :: nat

text \<open>
  \<^verbatim>\<open>process_user(session, nickname)\<close>; \<^verbatim>\<open>len\<close> of a true value that is not a
  string raises \<^verbatim>\<open>TypeError\<close>.
\<close>

definition process_user :: "session \<Rightarrow> json \<Rightarrow> error + nat option \<times> session" where
  "process_user session nickname =
     (if truthy nickname then
        (case nickname of
           JStr s \<Rightarrow>
             if 2 \<le> length s \<and> length s \<le> 128 then
               (case map_of (user_rows session) s of
                  None \<Rightarrow>
                    Inr (Some (next_id session),
                         session\<lparr>user_rows := user_rows session @ [(s, next_id session)],
                                 next_id := Suc (next_id session)\<rparr>)
                | Some old \<Rightarrow> Inr (Some old, session))
             else Inr (None, session)
         | _ \<Rightarrow> Inl TypeError)
      else Inr (None, session))"

text \<open>
  \<^verbatim>\<open>process_score(userid, pos_count)\<close>: the entries enqueued into
  \<^verbatim>\<open>update_score\<close>, each the user id and the value.
\<close>

definition process_score :: "nat option \<Rightarrow> nat \<Rightarrow> (nat \<times> nat) list" where
  "process_score userid pos_count =
     (case userid of
        None \<Rightarrow> []
      | Some u \<Rightarrow> if pos_count \<le> 0 then [] else [(u, pos_count)])"

text \<open>The first loop of \<^verbatim>\<open>_send\<close>: format the reports and group them.\<close>

type_synonym groups = "((json \<times> json) \<times> dict list) list"

fun collect ::
  "('r, 'i, 'o, 'k) models \<Rightarrow> json list \<Rightarrow> groups \<times> json list \<times> json list \<Rightarrow>
   error + groups \<times> json list \<times> json list" where
  "collect M [] acc = Inr acc"
| "collect M (item # items) (groups, api_keys, nicknames) =
     bind_err (py_getitem item ''report'') (\<lambda>r.
     bind_err (format_report M r) (\<lambda>report.
       if report \<noteq> [] then
         bind_err (py_getitem item ''api_key'') (\<lambda>api_key.
         bind_err (py_getitem item ''nickname'') (\<lambda>nickname.
         bind_err (hash_key api_key) (\<lambda>ka.
         bind_err (hash_key nickname) (\<lambda>kn.
           collect M items
             (dd_append groups (ka, kn) report, set_add api_keys ka, set_add nicknames kn)))))
       else collect M items (groups, api_keys, nicknames)))"

text \<open>The second loop: \<^verbatim>\<open>users\<close> and \<^verbatim>\<open>scores\<close>.\<close>

fun resolve_users ::
  "session \<Rightarrow> json list \<Rightarrow> (json \<times> nat option) list \<times> (nat option \<times> nat) list \<Rightarrow>
   error + (json \<times> nat option) list \<times> (nat option \<times> nat) list \<times> session" where
  "resolve_users session [] (users, scores) = Inr (users, scores, session)"
| "resolve_users session (nickname # nicknames) (users, scores) =
     bind_err (process_user session nickname) (\<lambda>(userid, session).
       resolve_users session nicknames
         (AList.update nickname userid users, AList.update userid 0 scores))"

text \<open>
  The loop over the groups, with the state
  \<^verbatim>\<open>(all_positions, all_queued_obs, scores)\<close>; \<^verbatim>\<open>scores[userid] += n\<close> raises
  \<^verbatim>\<open>KeyError\<close> for a missing key. The counters of \<^verbatim>\<open>metrics\<close> feed the statistics
  only and are left out, as are \<^verbatim>\<open>emit_stats\<close> and \<^verbatim>\<open>process_datamap\<close>.
\<close>

type_synonym groups_state =
  "(json \<times> json) list \<times> (obs_type \<Rightarrow> (string \<times> json list) list) \<times> (nat option \<times> nat) list"

fun process_groups ::
  "('r, 'i, 'o, 'k) models \<Rightarrow> groups \<Rightarrow> (json \<times> nat option) list \<Rightarrow> groups_state \<Rightarrow>
   error + groups_state" where
  "process_groups M [] users st = Inr st"
| "process_groups M (((api_key, nickname), reports) # groups) users
     (all_positions, all_queued_obs, scores) =
     (let userid = (case map_of users nickname of None \<Rightarrow> None | Some u \<Rightarrow> u)
      in bind_err (process_reports M reports userid)
           (\<lambda>(obs_queue, malformed_reports, obs_count, positions).
              bind_err
                (case userid of
                   None \<Rightarrow> Inr scores
                 | Some u \<Rightarrow>
                     (case map_of scores userid of
                        None \<Rightarrow> Inl KeyError
                      | Some v \<Rightarrow> Inr (AList.update userid (v + length positions) scores)))
                (\<lambda>scores.
                   process_groups M groups users
                     (all_positions @ positions,
                      (\<lambda>datatype. fold (\<lambda>(queue_id, values) d. dd_extend d queue_id values)
                                     (obs_queue datatype) (all_queued_obs datatype)),
                      scores))))"

text \<open>
  \<^verbatim>\<open>_send(session, url, data)\<close> on the decoded payload \<open>data\<close>. The result is what
  is enqueued: the score entries, and for every transmitter type the observations by
  queue name; together with the positions and the session.
\<close>

record send_result =
  score_queue :: "(nat \<times> nat) list"
  obs_queues :: "obs_type \<Rightarrow> (string \<times> json list) list"
  all_positions :: "(json \<times> json) list"
  session_after :: session

definition send :: "('r, 'i, 'o, 'k) models \<Rightarrow> session \<Rightarrow> json \<Rightarrow> error + send_result" where
  "send M session data =
     bind_err (py_iter data) (\<lambda>items.
     bind_err (collect M items ([], [], [])) (\<lambda>(groups, api_keys, nicknames).
     bind_err (resolve_users session nicknames ([], [])) (\<lambda>(users, scores, session).
     bind_err (process_groups M groups users ([], \<lambda>datatype. [], scores))
       (\<lambda>(positions, queued_obs, scores).
          Inr \<lparr>score_queue = concat (map (\<lambda>(userid, score_value). process_score userid score_value) scores),
               obs_queues = queued_obs,
               all_positions = positions,
               session_after = session\<rparr>))))"


section \<open>The statements about the dispatcher\<close>

text \<open>The envelope the dispatcher rebuilds from the three keys of an ingress item.\<close>

definition envelope :: "json \<Rightarrow> json \<Rightarrow> json \<Rightarrow> json" where
  "envelope api_key nickname report =
     JObj [(''api_key'', api_key), (''nickname'', nickname), (''report'', report)]"

text \<open>
  The invariant of the grouping loop: every item of a group is the rebuilt envelope of
  an ingress item whose key is stored as the key of the group.
\<close>

definition grouped_ok :: "json list \<Rightarrow> (json \<times> json list) list \<Rightarrow> bool" where
  "grouped_ok data grouped =
     (\<forall>(k, items) \<in> set grouped. \<forall>x \<in> set items.
        \<exists>item \<in> set data. \<exists>a n r.
          py_getitem item ''api_key'' = Inr a \<and> py_getitem item ''nickname'' = Inr n
          \<and> py_getitem item ''report'' = Inr r \<and> hash_key a = Inr k \<and> x = envelope a n r)"


section \<open>The statements about the transform, in the words of the specification\<close>

text \<open>
  A mapped field of an entry is present when the entry has the source key with a value
  that is not null; an entry survives the field mapping when at least one of its mapped
  fields is present.
\<close>

definition field_present :: "dict \<Rightarrow> field_spec \<Rightarrow> bool" where
  "field_present e spec =
     (case map_of e (spec_source spec) of None \<Rightarrow> False | Some v \<Rightarrow> v \<noteq> JNull)"

definition survives :: "field_spec list \<Rightarrow> json \<Rightarrow> bool" where
  "survives field_map entry =
     (case entry of JObj e \<Rightarrow> list_ex (field_present e) field_map | _ \<Rightarrow> False)"

text \<open>The entries of a report under one of its three list keys.\<close>

definition entries :: "json \<Rightarrow> string \<Rightarrow> json list" where
  "entries item key =
     (case item of
        JObj d \<Rightarrow> (case map_of d key of Some (JList xs) \<Rightarrow> xs | _ \<Rightarrow> [])
      | _ \<Rightarrow> [])"


text \<open>
  No field of a dictionary is null; and for an output report: none of its own fields
  is null, and each of its lists \<^verbatim>\<open>blue\<close>, \<^verbatim>\<open>cell\<close> and \<^verbatim>\<open>wifi\<close> is a
  non-empty list of non-empty dictionaries without a null field.
\<close>

definition no_null :: "dict \<Rightarrow> bool" where
  "no_null d = list_all (\<lambda>(k, v). v \<noteq> JNull) d"

definition no_null_entry :: "json \<Rightarrow> bool" where
  "no_null_entry entry = (case entry of JObj e \<Rightarrow> e \<noteq> [] \<and> no_null e | _ \<Rightarrow> False)"




section \<open>The statements about the internal sink\<close>

text \<open>
  The candidates of a transmitter list are the observations combined from its valid
  entries, in the order of the list; the candidates of a report for a transmitter type
  are those of the list the report has under the name of the type.
\<close>

fun candidates :: "('r, 'i, 'o, 'k) models \<Rightarrow> obs_type \<Rightarrow> 'r \<Rightarrow> json list \<Rightarrow> 'o list" where
  "candidates M name report [] = []"
| "candidates M name report (item # items) =
     (case item of
        JObj d \<Rightarrow>
          (case item_create M name d of
             None \<Rightarrow> candidates M name report items
           | Some item_report \<Rightarrow> combine M name report item_report # candidates M name report items)
      | _ \<Rightarrow> candidates M name report items)"

definition report_candidates :: "('r, 'i, 'o, 'k) models \<Rightarrow> obs_type \<Rightarrow> dict \<Rightarrow> 'o list" where
  "report_candidates M name data =
     (case Report_create M data of
        None \<Rightarrow> []
      | Some report \<Rightarrow>
          if truthy (dict_get data (type_name name)) then
            (case py_iter (dict_get data (type_name name)) of
               Inl e \<Rightarrow> []
             | Inr items \<Rightarrow> candidates M name report items)
          else [])"

text \<open>
  The observations \<^verbatim>\<open>process_report\<close> returns for a report and a transmitter type;
  none when it raises.
\<close>

definition report_obs :: "('r, 'i, 'o, 'k) models \<Rightarrow> obs_type \<Rightarrow> dict \<Rightarrow> 'o list" where
  "report_obs M name data =
     (case process_report M data of Inl e \<Rightarrow> [] | Inr (obs, malformed) \<Rightarrow> obs name)"

text \<open>
  The invariant of the dictionary \<^verbatim>\<open>observations[name]\<close>: every observation is held
  under its unique key, and no key is held twice.
\<close>

definition held_ok :: "('r, 'i, 'o, 'k) models \<Rightarrow> ('k \<times> 'o) list \<Rightarrow> bool" where
  "held_ok M held = (distinct (map fst held) \<and> (\<forall>(k, ob) \<in> set held. unique_key M ob = k))"

text \<open>
  The contest for one unique key: the first candidate is held, and every later candidate
  replaces the held observation unless \<^verbatim>\<open>existing.better(new)\<close> holds. The
  observation retained for a key from a list of candidates is the one held after the
  contest among the candidates with that key, in the order of the list.
\<close>

fun contest :: "('r, 'i, 'o, 'k) models \<Rightarrow> 'o \<Rightarrow> 'o list \<Rightarrow> 'o" where
  "contest M existing [] = existing"
| "contest M existing (new # cs) = contest M (if better M existing new then existing else new) cs"

definition retained :: "('r, 'i, 'o, 'k) models \<Rightarrow> 'o list \<Rightarrow> 'k \<Rightarrow> 'o option" where
  "retained M cs k =
     (case filter (\<lambda>c. unique_key M c = k) cs of
        [] \<Rightarrow> None
      | c # rest \<Rightarrow> Some (contest M c rest))"

text \<open>
  A report produced a valid observation when \<^verbatim>\<open>process_report\<close> returns an
  observation of some type for it. Its position is the pair of \<^verbatim>\<open>lat\<close> and
  \<^verbatim>\<open>lon\<close>, as the set of positions stores it. The positions credited for the reports
  of a group are the distinct positions of its reports with a valid observation.
\<close>

definition valid_report :: "('r, 'i, 'o, 'k) models \<Rightarrow> dict \<Rightarrow> bool" where
  "valid_report M data =
     (report_obs M Blue data \<noteq> [] \<or> report_obs M Cell data \<noteq> [] \<or> report_obs M Wifi data \<noteq> [])"

definition report_position :: "dict \<Rightarrow> (json \<times> json) option" where
  "report_position data =
     (case (map_of data ''lat'', map_of data ''lon'') of
        (Some lat, Some lon) \<Rightarrow>
          (case (hash_key lat, hash_key lon) of
             (Inr hlat, Inr hlon) \<Rightarrow> Some (hlat, hlon)
           | _ \<Rightarrow> None)
      | _ \<Rightarrow> None)"

definition distinct_positions :: "('r, 'i, 'o, 'k) models \<Rightarrow> dict list \<Rightarrow> nat" where
  "distinct_positions M reports =
     length (remdups (List.map_filter report_position (filter (valid_report M) reports)))"

text \<open>
  A nickname resolves to a user id when it is a string of 2 to 128 characters.
\<close>

definition resolves :: "json \<Rightarrow> bool" where
  "resolves nickname =
     (case nickname of JStr s \<Rightarrow> 2 \<le> length s \<and> length s \<le> 128 | _ \<Rightarrow> False)"

text \<open>
  The reports of a batch, read off its items one by one: an item submits the internal
  report formatted from its \<^verbatim>\<open>report\<close>, unless that is empty, for the submitter
  given by its \<^verbatim>\<open>api_key\<close> and \<^verbatim>\<open>nickname\<close>. The reports of a submitter are
  those of the batch submitted for it, in the order of the batch.
\<close>

definition submitted :: "('r, 'i, 'o, 'k) models \<Rightarrow> json \<Rightarrow> ((json \<times> json) \<times> dict) option" where
  "submitted M item =
     (case py_getitem item ''report'' of
        Inl e \<Rightarrow> None
      | Inr r \<Rightarrow>
          (case format_report M r of
             Inl e \<Rightarrow> None
           | Inr report \<Rightarrow>
               if report = [] then None
               else (case (py_getitem item ''api_key'', py_getitem item ''nickname'') of
                       (Inr api_key, Inr nickname) \<Rightarrow>
                         (case (hash_key api_key, hash_key nickname) of
                            (Inr ka, Inr kn) \<Rightarrow> Some ((ka, kn), report)
                          | _ \<Rightarrow> None)
                     | _ \<Rightarrow> None)))"

definition batch_reports :: "('r, 'i, 'o, 'k) models \<Rightarrow> json \<Rightarrow> ((json \<times> json) \<times> dict) list" where
  "batch_reports M data =
     (case py_iter data of Inl e \<Rightarrow> [] | Inr items \<Rightarrow> List.map_filter (submitted M) items)"

definition reports_of :: "((json \<times> json) \<times> dict) list \<Rightarrow> json \<times> json \<Rightarrow> dict list" where
  "reports_of brs submitter = map snd (filter (\<lambda>br. fst br = submitter) brs)"

text \<open>
  The credit of a batch adds up, over the submitters of the batch whose nickname
  resolves, the distinct positions of the reports of the submitter.
\<close>

definition credited :: "('r, 'i, 'o, 'k) models \<Rightarrow> ((json \<times> json) \<times> dict) list \<Rightarrow> nat" where
  "credited M brs =
     sum_list (map (\<lambda>submitter. if resolves (snd submitter)
                                then distinct_positions M (reports_of brs submitter) else 0)
                   (remdups (map fst brs)))"

text \<open>
  The credit the loop over the groups of \<^verbatim>\<open>_send\<close> adds up, and the list a
  \<^verbatim>\<open>defaultdict(list)\<close> holds under a key.
\<close>

definition groups_credit :: "('r, 'i, 'o, 'k) models \<Rightarrow> groups \<Rightarrow> nat" where
  "groups_credit M groups =
     sum_list (map (\<lambda>((api_key, nickname), reports).
                      if resolves nickname then distinct_positions M reports else 0) groups)"

definition dd_get :: "('k \<times> 'v list) list \<Rightarrow> 'k \<Rightarrow> 'v list" where
  "dd_get d k = (case map_of d k of None \<Rightarrow> [] | Some vs \<Rightarrow> vs)"

text \<open>
  The invariants of the dictionaries \<^verbatim>\<open>users\<close> and \<^verbatim>\<open>scores\<close>: a nickname
  has a user id exactly when it resolves, and its user id is a key of the scores; no key
  of the scores occurs twice, and a score kept under \<^verbatim>\<open>None\<close> is 0.
\<close>

definition users_ok :: "(json \<times> nat option) list \<Rightarrow> (nat option \<times> nat) list \<Rightarrow> bool" where
  "users_ok users scores =
     (\<forall>n uid. map_of users n = Some uid \<longrightarrow>
        (uid \<noteq> None \<longleftrightarrow> resolves n) \<and> uid \<in> fst ` set scores)"

definition scores_ok :: "(nat option \<times> nat) list \<Rightarrow> bool" where
  "scores_ok scores =
     (distinct (map fst scores) \<and> (\<forall>(k, v) \<in> set scores. k = None \<longrightarrow> v = 0))"

text \<open>
  What a call of \<^verbatim>\<open>_send\<close> enqueued: the observations by queue name, and the
  score entries; nothing when it raised.
\<close>

definition enqueued_obs :: "error + send_result \<Rightarrow> obs_type \<Rightarrow> (string \<times> json list) list" where
  "enqueued_obs res name = (case res of Inl e \<Rightarrow> [] | Inr r \<Rightarrow> obs_queues r name)"

definition enqueued_scores :: "error + send_result \<Rightarrow> (nat \<times> nat) list" where
  "enqueued_scores res = (case res of Inl e \<Rightarrow> [] | Inr r \<Rightarrow> score_queue r)"


section \<open>Inputs of the documented shape\<close>

text \<open>
  An external report of the documented shape is a dictionary whose \<^verbatim>\<open>position\<close>,
  when it is true as a condition, is a dictionary, and whose three transmitter lists,
  when present, are lists of dictionaries.
\<close>

definition is_dict :: "json \<Rightarrow> bool" where
  "is_dict v = (case v of JObj d \<Rightarrow> True | _ \<Rightarrow> False)"

definition dict_list :: "dict \<Rightarrow> string \<Rightarrow> bool" where
  "dict_list d key =
     (case map_of d key of
        None \<Rightarrow> True
      | Some v \<Rightarrow> (case v of JList xs \<Rightarrow> list_all is_dict xs | _ \<Rightarrow> False))"

definition well_shaped :: "json \<Rightarrow> bool" where
  "well_shaped item =
     (case item of
        JObj d \<Rightarrow>
          (if truthy (dict_get d ''position'') then is_dict (dict_get d ''position'') else True)
          \<and> dict_list d ''bluetoothBeacons'' \<and> dict_list d ''cellTowers''
          \<and> dict_list d ''wifiAccessPoints''
      | _ \<Rightarrow> False)"

text \<open>
  An ingress envelope of the documented shape has the three keys, with a string or
  null as \<^verbatim>\<open>api_key\<close>.
\<close>

definition string_or_null :: "json \<Rightarrow> bool" where
  "string_or_null v = (case v of JNull \<Rightarrow> True | JStr s \<Rightarrow> True | _ \<Rightarrow> False)"

definition well_formed_envelope :: "json \<Rightarrow> bool" where
  "well_formed_envelope item =
     (case item of
        JObj d \<Rightarrow>
          (case map_of d ''api_key'' of None \<Rightarrow> False | Some a \<Rightarrow> string_or_null a)
          \<and> map_of d ''nickname'' \<noteq> None \<and> map_of d ''report'' \<noteq> None
      | _ \<Rightarrow> False)"


section \<open>Concrete values for the examples\<close>

text \<open>
  A scheme reader and a reader of decimal numbers stand for \<^verbatim>\<open>urlparse\<close> and
  \<^verbatim>\<open>int\<close> on the inputs of the examples: the scheme is the text before the first
  colon, and is empty without one.
\<close>

definition sample_scheme :: "string \<Rightarrow> string" where
  "sample_scheme url =
     (if CHR '':'' \<in> set url then takeWhile (\<lambda>c. c \<noteq> CHR '':'') url else '''')"

definition sample_int :: "string \<Rightarrow> int option" where
  "sample_int s =
     (if s \<noteq> [] \<and> list_all (\<lambda>c. 48 \<le> (of_char c :: nat) \<and> (of_char c :: nat) \<le> 57) s
      then Some (foldl (\<lambda>a c. 10 * a + (int (of_char c) - 48)) 0 s) else None)"

text \<open>A sink that fails with a retriable exception at every attempt.\<close>

definition always_failing :: "nat \<Rightarrow> json \<Rightarrow> upload_outcome" where
  "always_failing i data = RetriableError"

definition sample_queue :: export_queue where
  "sample_queue =
     \<lparr>q_klass = HTTPSExportQueue, q_name = ''queue_export_test'',
      q_url = ''https://example.com/'', q_batch = 0, q_skip_keys = [],
      q_uploader_type = Some GeosubmitUploader, q_compress = False\<rparr>"

definition sample_item :: json where
  "sample_item = JObj [(''api_key'', JStr ''test''), (''nickname'', JNull), (''report'', JObj [])]"


text \<open>
  Two external reports: one with a position, a wifi entry and a timestamp, and one
  with a wifi entry and the timestamp 0.
\<close>

definition sample_report :: json where
  "sample_report =
     JObj [(''position'', JObj [(''latitude'', JNum (3 / 2)), (''longitude'', JNum (5 / 2)),
                                (''accuracy'', JNum 10), (''altitudeAccuracy'', JNum 3)]),
           (''wifiAccessPoints'', JList [JObj [(''macAddress'', JStr ''aa:bb''),
                                               (''signalStrength'', JNum (- 50))]]),
           (''timestamp'', JNum 1500000000000)]"

definition epoch_report :: json where
  "epoch_report =
     JObj [(''timestamp'', JNum 0),
           (''wifiAccessPoints'', JList [JObj [(''macAddress'', JStr ''aa:bb'')]])]"


text \<open>
  An object-store queue that skips the key \<^verbatim>\<open>A\<close>, three ingress envelopes with the
  keys \<^verbatim>\<open>A\<close>, null and \<^verbatim>\<open>B\<close>, and an ingress item without the key
  \<^verbatim>\<open>api_key\<close>.
\<close>

definition s3_queue :: export_queue where
  "s3_queue =
     \<lparr>q_klass = S3ExportQueue, q_name = ''queue_export_backup'',
      q_url = ''s3://bucket/{api_key}/'', q_batch = 0, q_skip_keys = [''A''],
      q_uploader_type = Some S3Uploader, q_compress = False\<rparr>"

definition sample_data :: "json list" where
  "sample_data =
     [envelope (JStr ''A'') JNull (JObj []),
      envelope JNull (JStr ''alice'') (JObj []),
      envelope (JStr ''B'') JNull (JObj [])]"

definition keyless_item :: json where
  "keyless_item = JObj [(''nickname'', JNull), (''report'', JObj [])]"


text \<open>
  Stand-ins for the model classes in the examples: a report needs \<^verbatim>\<open>lat\<close> and
  \<^verbatim>\<open>lon\<close>, a transmitter entry a string under \<^verbatim>\<open>mac\<close> (\<^verbatim>\<open>cid\<close> for a
  cell), which is its unique key; the stronger signal is the better observation, and the
  shard is the first character of the key.
\<close>

definition sample_Report_create :: "dict \<Rightarrow> dict option" where
  "sample_Report_create data =
     (if map_of data ''lat'' \<noteq> None \<and> map_of data ''lon'' \<noteq> None then Some data else None)"

definition sample_item_create :: "obs_type \<Rightarrow> dict \<Rightarrow> dict option" where
  "sample_item_create name item =
     (case map_of item (if name = Cell then ''cid'' else ''mac'') of
        Some (JStr s) \<Rightarrow> Some item
      | _ \<Rightarrow> None)"

definition sample_combine :: "obs_type \<Rightarrow> dict \<Rightarrow> dict \<Rightarrow> dict" where
  "sample_combine name report item_report =
     item_report @ [(''lat'', dict_get report ''lat''), (''lon'', dict_get report ''lon'')]"

definition sample_unique_key :: "dict \<Rightarrow> json" where
  "sample_unique_key ob =
     (case map_of ob ''mac'' of Some mac \<Rightarrow> mac | None \<Rightarrow> dict_get ob ''cid'')"

definition sample_better :: "dict \<Rightarrow> dict \<Rightarrow> bool" where
  "sample_better a b =
     (case (dict_get a ''signal'', dict_get b ''signal'') of
        (JNum x, JNum y) \<Rightarrow> y < x
      | _ \<Rightarrow> False)"

definition sample_shard_id :: "obs_type \<Rightarrow> dict \<Rightarrow> string" where
  "sample_shard_id name ob =
     (case sample_unique_key ob of JStr (c # cs) \<Rightarrow> [c] | _ \<Rightarrow> ''0'')"

definition sample_utc_time :: "json \<Rightarrow> error + json" where
  "sample_utc_time timestamp =
     (case timestamp of JNum ms \<Rightarrow> Inr (JNum (of_int \<lfloor>ms / 1000\<rfloor>)) | _ \<Rightarrow> Inl TypeError)"

definition sample_models :: "(dict, dict, dict, json) models" where
  "sample_models =
     \<lparr>Report_create = sample_Report_create, item_create = sample_item_create,
      combine = sample_combine, unique_key = sample_unique_key, better = sample_better,
      shard_id = sample_shard_id, to_json = JObj, utc_time = sample_utc_time\<rparr>"

text \<open>
  Three wifi entries with the same address, the third as strong as the first; an
  external report with the stronger entry before the weaker one, the internal report
  formatted from it, and a batch of that report alone; a batch of two envelopes of one
  submitter, with one entry each, at the same position; and a database without users.
\<close>

definition weak_wifi :: dict where
  "weak_wifi = [(''mac'', JStr ''aa:bb''), (''signal'', JNum (- 60))]"

definition strong_wifi :: dict where
  "strong_wifi = [(''mac'', JStr ''aa:bb''), (''signal'', JNum (- 50))]"

definition tied_wifi :: dict where
  "tied_wifi = [(''mac'', JStr ''aa:bb''), (''signal'', JNum (- 60)), (''channel'', JNum 6)]"

definition external_report :: "rat \<Rightarrow> json" where
  "external_report signal =
     JObj [(''position'', JObj [(''latitude'', JNum (3 / 2)), (''longitude'', JNum (5 / 2))]),
           (''wifiAccessPoints'', JList [JObj [(''macAddress'', JStr ''aa:bb''),
                                               (''signalStrength'', JNum signal)]])]"

definition sample_batch :: json where
  "sample_batch =
     JList [envelope (JStr ''test'') (JStr ''alice'') (external_report (- 60)),
            envelope (JStr ''test'') (JStr ''alice'') (external_report (- 50))]"

definition empty_session :: session where
  "empty_session = \<lparr>user_rows = [], next_id = 1\<rparr>"

definition two_wifi_external :: json where
  "two_wifi_external =
     JObj [(''position'', JObj [(''latitude'', JNum (3 / 2)), (''longitude'', JNum (5 / 2))]),
           (''wifiAccessPoints'',
            JList [JObj [(''macAddress'', JStr ''aa:bb''), (''signalStrength'', JNum (- 50))],
                   JObj [(''macAddress'', JStr ''aa:bb''), (''signalStrength'', JNum (- 60))]])]"

definition two_wifi_report :: dict where
  "two_wifi_report =
     [(''lat'', JNum (3 / 2)), (''lon'', JNum (5 / 2)),
      (''wifi'', JList [JObj strong_wifi, JObj weak_wifi])]"

definition two_wifi_batch :: json where
  "two_wifi_batch = JList [envelope (JStr ''test'') (JStr ''alice'') two_wifi_external]"


section \<open>Properties of the queue configuration\<close>

lemma bind_err_simps [simp]:
  "bind_err (Inl e) f = Inl e"
  "bind_err (Inr x) f = f x"
  by (simp_all add: bind_err_def)

lemma bind_err_Inr_iff: "bind_err m f = Inr y \<longleftrightarrow> (\<exists>x. m = Inr x \<and> f x = Inr y)"
  by (cases m) simp_all

text \<open>
  Claim C4, as the code has it: a URL whose scheme is empty or outside the table
  \<^verbatim>\<open>queue_types\<close> gives a queue of the class \<^verbatim>\<open>configure_queue\<close> was called on,
  with no uploader type. The dummy queue class and the dummy uploader are chosen for
  the scheme \<^verbatim>\<open>dummy\<close> only.
\<close>

theorem configure_queue_unknown_scheme:
  assumes "urlparse_scheme (case map_of settings ''url'' of None \<Rightarrow> '''' | Some u \<Rightarrow> u)
             \<notin> {''dummy'', ''http'', ''https'', ''internal'', ''s3''}"
      and "(case map_of settings ''batch'' of None \<Rightarrow> Some 0 | Some b \<Rightarrow> py_int b) = Some batch"
  shows "\<exists>q. configure_queue urlparse_scheme py_int cls key settings compress = Inr q
             \<and> q_klass q = cls \<and> q_uploader_type q = None"
proof -
  let ?scheme = "urlparse_scheme (case map_of settings ''url'' of None \<Rightarrow> '''' | Some u \<Rightarrow> u)"
  from assms(1) have "map_of queue_types ?scheme = None"
    by (simp add: queue_types_def)
  with assms(2) show ?thesis
    by (simp add: configure_queue_def Let_def)
qed

theorem configure_queue_unknown_scheme_witness:
  "\<exists>q. configure_queue sample_scheme sample_int ExportQueue ''queue_export_test''
          [(''url'', ''ftp://example.com/''), (''batch'', ''10'')] False = Inr q
       \<and> q_klass q = ExportQueue \<and> q_uploader_type q = None"
  using configure_queue_unknown_scheme
          [of sample_scheme "[(''url'', ''ftp://example.com/''), (''batch'', ''10'')]"
              sample_int 10 ExportQueue "''queue_export_test''" False]
  by (simp add: sample_scheme_def sample_int_def)

text \<open>
  Without a URL the scheme is empty and the queue is a plain \<^verbatim>\<open>ExportQueue\<close>
  without uploader, where the scheme \<^verbatim>\<open>dummy\<close> gives \<^verbatim>\<open>DummyExportQueue\<close> and
  \<^verbatim>\<open>DummyUploader\<close>.
\<close>

theorem configure_queue_empty_scheme_counterexample:
  "configure_queue sample_scheme sample_int ExportQueue ''queue_export_test'' [] False
     = Inr \<lparr>q_klass = ExportQueue, q_name = ''queue_export_test'', q_url = '''', q_batch = 0,
            q_skip_keys = [], q_uploader_type = None, q_compress = False\<rparr>
   \<and> configure_queue sample_scheme sample_int ExportQueue ''queue_export_test''
       [(''url'', ''dummy://'')] False
     = Inr \<lparr>q_klass = DummyExportQueue, q_name = ''queue_export_test'', q_url = ''dummy://'',
            q_batch = 0, q_skip_keys = [], q_uploader_type = Some DummyUploader,
            q_compress = False\<rparr>"
  by (simp add: configure_queue_def sample_scheme_def queue_types_def Let_def)


section \<open>Properties of the retry loop\<close>

lemma retry_loop_all_fail:
  "(\<forall>j. i \<le> j \<and> j < i + n \<longrightarrow> upload j = RetriableError) \<Longrightarrow>
   retry_loop upload i n =
     (Some False, n, map (\<lambda>j. retry_wait * (of_nat j ^ 2 + 1)) [i ..< i + n])"
proof (induction n arbitrary: i)
  case 0
  then show ?case by simp
next
  case (Suc n)
  have "upload i = RetriableError" using Suc.prems by simp
  moreover have "retry_loop upload (Suc i) n =
      (Some False, n, map (\<lambda>j. retry_wait * (of_nat j ^ 2 + 1)) [Suc i ..< Suc i + n])"
    using Suc.prems by (intro Suc.IH) simp
  ultimately show ?case by (simp add: upt_rec [of i])
qed

lemma retry_loop_sleep:
  "(\<forall>j. i \<le> j \<and> j \<le> i + k \<longrightarrow> upload j = RetriableError) \<Longrightarrow> k < n \<Longrightarrow>
   k < length (snd (snd (retry_loop upload i n))) \<and>
   snd (snd (retry_loop upload i n)) ! k = retry_wait * (of_nat (i + k) ^ 2 + 1)"
proof (induction n arbitrary: i k)
  case 0
  then show ?case by simp
next
  case (Suc n)
  have f: "upload i = RetriableError" using Suc.prems by simp
  show ?case
  proof (cases k)
    case 0
    with f show ?thesis by (simp split: prod.splits)
  next
    case (Suc k')
    have "k' < length (snd (snd (retry_loop upload (Suc i) n))) \<and>
          snd (snd (retry_loop upload (Suc i) n)) ! k' =
            retry_wait * (of_nat (Suc i + k') ^ 2 + 1)"
      using Suc.prems Suc by (intro Suc.IH) auto
    with f Suc show ?thesis by (simp add: case_prod_beta)
  qed
qed

text \<open>
  Claim C3, as the code has it: when every one of the three attempts fails with a
  retriable exception, the exception of the last attempt is caught like the others and
  the job returns normally, after three attempts and without re-arming itself. The
  batch was dequeued before the loop and is not put back.
\<close>

theorem uploader_call_exhausted:
  assumes "items \<noteq> []" and "payload q items = Inr data"
      and "\<forall>i<retries. upload i data = RetriableError"
  shows "job_end (uploader_call q items upload ready) = Returned
       \<and> attempts (uploader_call q items upload ready) = 3
       \<and> \<not> rearmed (uploader_call q items upload ready)"
proof -
  have "retry_loop (\<lambda>i. upload i data) 0 retries =
        (Some False, retries, map (\<lambda>j. retry_wait * (of_nat j ^ 2 + 1)) [0 ..< 0 + retries])"
    using assms(3) by (intro retry_loop_all_fail) simp
  with assms(1,2) show ?thesis
    by (simp add: uploader_call_def retries_def)
qed

theorem uploader_call_exhausted_witness:
  "job_end (uploader_call sample_queue [sample_item] always_failing True) = Returned
   \<and> attempts (uploader_call sample_queue [sample_item] always_failing True) = 3
   \<and> \<not> rearmed (uploader_call sample_queue [sample_item] always_failing True)"
  using uploader_call_exhausted
          [of "[sample_item]" sample_queue "JObj [(''items'', JList [JObj []])]"
              always_failing True]
  by (simp add: payload_def sample_queue_def sample_item_def metadata_def always_failing_def)

text \<open>
  A job on a queue whose sink fails three times ends by returning, not by raising.
\<close>

theorem uploader_call_reraise_counterexample:
  "uploader_call sample_queue [sample_item] always_failing True
     = \<lparr>job_end = Returned, attempts = 3, sleeps = [1, 2, 5], rearmed = False\<rparr>"
  by (simp add: uploader_call_def payload_def sample_queue_def sample_item_def metadata_def
      always_failing_def retries_def retry_wait_def numeral_3_eq_3)

text \<open>
  Claim C9: with \<^verbatim>\<open>_retry_wait = 1.0\<close>, when the attempts up to the zero-based
  attempt \<open>i\<close> fail with a retriable exception, the sleep after attempt \<open>i\<close> lasts
  \<open>retry_wait * (i\<^sup>2 + 1)\<close> seconds; for the attempts 0, 1 and 2 these are 1, 2 and 5
  seconds.
\<close>

theorem retry_sleep_durations:
  assumes "items \<noteq> []" and "payload q items = Inr data"
      and "i < retries" and "\<forall>j\<le>i. upload j data = RetriableError"
  shows "i < length (sleeps (uploader_call q items upload ready))
       \<and> sleeps (uploader_call q items upload ready) ! i = retry_wait * (of_nat i ^ 2 + 1)
       \<and> map (\<lambda>i. retry_wait * (of_nat i ^ 2 + 1)) [0, 1, 2 :: nat] = [1, 2, 5]"
proof -
  let ?r = "retry_loop (\<lambda>i. upload i data) 0 retries"
  have "i < length (snd (snd ?r)) \<and> snd (snd ?r) ! i = retry_wait * (of_nat (0 + i) ^ 2 + 1)"
    using assms(3,4) by (intro retry_loop_sleep) simp_all
  moreover have "sleeps (uploader_call q items upload ready) = snd (snd ?r)"
    using assms(1,2) by (simp add: uploader_call_def split: prod.splits option.splits)
  ultimately show ?thesis by (simp add: retry_wait_def)
qed

theorem retry_sleep_durations_witness:
  "(2::nat) < length (sleeps (uploader_call sample_queue [sample_item] always_failing True))
   \<and> sleeps (uploader_call sample_queue [sample_item] always_failing True) ! 2 = 5"
  using retry_sleep_durations
          [of "[sample_item]" sample_queue "JObj [(''items'', JList [JObj []])]" 2
              always_failing True]
  by (simp add: payload_def sample_queue_def sample_item_def metadata_def always_failing_def
      retries_def retry_wait_def)
section \<open>Properties of the transform\<close>

lemma set_update_subset: "set (AList.update k v al) \<subseteq> insert (k, v) (set al)"
  by (induction al) auto

lemma list_all_update:
  "P (k, v) \<Longrightarrow> list_all P al \<Longrightarrow> list_all P (AList.update k v al)"
  using set_update_subset [of k v al] by (auto simp: list_all_iff)

lemma no_null_update: "v \<noteq> JNull \<Longrightarrow> no_null al \<Longrightarrow> no_null (AList.update k v al)"
  by (simp add: no_null_def list_all_update)

lemma map_dict_loop_nonobj:
  "fm \<noteq> [] \<Longrightarrow> map_dict_loop src fm v = Inr v' \<Longrightarrow> \<exists>e. src = JObj e"
  by (cases fm; cases src) simp_all

lemma map_dict_loop_obj:
  "\<exists>v'. map_dict_loop (JObj e) fm v = Inr v'
     \<and> (v' \<noteq> [] \<longleftrightarrow> v \<noteq> [] \<or> list_ex (field_present e) fm)
     \<and> (no_null v \<longrightarrow> no_null v')
     \<and> fst ` set v' \<subseteq> fst ` set v \<union> spec_target ` set fm"
proof (induction fm arbitrary: v)
  case Nil
  then show ?case by simp
next
  case (Cons spec fm)
  let ?sv = "dict_get e (spec_source spec)"
  let ?v1 = "if ?sv \<noteq> JNull then AList.update (spec_target spec) ?sv v else v"
  obtain v' where v': "map_dict_loop (JObj e) fm ?v1 = Inr v'"
      "v' \<noteq> [] \<longleftrightarrow> ?v1 \<noteq> [] \<or> list_ex (field_present e) fm"
      "no_null ?v1 \<longrightarrow> no_null v'"
      "fst ` set v' \<subseteq> fst ` set ?v1 \<union> spec_target ` set fm"
    using Cons.IH [of ?v1] by blast
  have p: "field_present e spec \<longleftrightarrow> ?sv \<noteq> JNull"
    by (simp add: field_present_def dict_get_def split: option.splits)
  have n: "no_null v \<Longrightarrow> no_null ?v1"
    by (simp add: no_null_update)
  have k: "fst ` set ?v1 \<subseteq> fst ` set v \<union> {spec_target spec}"
    by (auto simp: AList.dom_update)
  have "map_dict_loop (JObj e) (spec # fm) v = Inr v'"
    using v'(1) by simp
  moreover have "v' \<noteq> [] \<longleftrightarrow> v \<noteq> [] \<or> list_ex (field_present e) (spec # fm)"
    using v'(2) p by auto
  moreover have "no_null v \<longrightarrow> no_null v'"
    using v'(3) n by blast
  moreover have "fst ` set v' \<subseteq> fst ` set v \<union> spec_target ` set (spec # fm)"
    using v'(4) k by auto
  ultimately show ?case by blast
qed

lemma map_dict_Inr:
  assumes "map_dict src fm = Inr v" and "fm \<noteq> []"
  shows "\<exists>e. src = JObj e" and "v \<noteq> [] \<longleftrightarrow> survives fm src" and "no_null v"
    and "fst ` set v \<subseteq> spec_target ` set fm"
proof -
  from assms obtain e where e: "src = JObj e"
    unfolding map_dict_def by (blast dest: map_dict_loop_nonobj)
  then show "\<exists>e. src = JObj e" by blast
  from map_dict_loop_obj [of e fm "[]"] assms(1) e
  show "v \<noteq> [] \<longleftrightarrow> survives fm src" and "no_null v" and "fst ` set v \<subseteq> spec_target ` set fm"
    by (auto simp: map_dict_def survives_def no_null_def)
qed

lemma parse_list_loop_Inr:
  assumes "parse_list_loop xs fm vs = Inr vs'" and "fm \<noteq> []"
  shows "(vs' \<noteq> [] \<longleftrightarrow> vs \<noteq> [] \<or> list_ex (survives fm) xs)
       \<and> (list_all no_null_entry (map JObj vs) \<longrightarrow> list_all no_null_entry (map JObj vs'))
       \<and> (\<forall>x\<in>set xs. \<exists>e. x = JObj e)"
  using assms(1)
proof (induction xs arbitrary: vs)
  case Nil
  then show ?case by simp
next
  case (Cons x xs)
  from Cons.prems obtain v where v: "map_dict x fm = Inr v"
    and r: "parse_list_loop xs fm (if v \<noteq> [] then vs @ [v] else vs) = Inr vs'"
    by (auto simp: bind_err_Inr_iff)
  note m = map_dict_Inr [OF v assms(2)]
  note ih = Cons.IH [OF r]
  have "vs' \<noteq> [] \<longleftrightarrow> vs \<noteq> [] \<or> list_ex (survives fm) (x # xs)"
    using ih m(2) by auto
  moreover have "list_all no_null_entry (map JObj vs) \<longrightarrow> list_all no_null_entry (map JObj vs')"
  proof
    assume a: "list_all no_null_entry (map JObj vs)"
    have "list_all no_null_entry (map JObj (if v \<noteq> [] then vs @ [v] else vs))"
      using a m(3) by (simp add: no_null_entry_def)
    with ih show "list_all no_null_entry (map JObj vs')" by blast
  qed
  moreover have "\<forall>y\<in>set (x # xs). \<exists>e. y = JObj e"
    using ih m(1) by auto
  ultimately show ?case by blast
qed

lemma py_iter_entries:
  assumes "py_get_default item key = Inr source" and "py_iter source = Inr xs"
      and "\<forall>x\<in>set xs. \<exists>e. x = JObj e"
  shows "xs = entries item key"
proof -
  from assms(1) obtain d where d: "item = JObj d"
    by (cases item) simp_all
  show ?thesis
  proof (cases source)
    case (JList ys)
    with assms d show ?thesis by (auto simp: entries_def split: option.splits)
  next
    case (JStr s)
    with assms(2,3) have "xs = []" by (cases s) auto
    with assms d JStr show ?thesis by (auto simp: entries_def split: option.splits)
  next
    case (JObj o')
    with assms(2,3) have "remdups (map fst o') = []" by (cases "remdups (map fst o')") auto
    hence "xs = []" using assms(2) JObj by simp
    with assms d JObj show ?thesis by (auto simp: entries_def split: option.splits)
  qed (use assms(2) in simp_all)
qed

lemma parse_list_Inr:
  assumes "parse_list item report key_map fm = Inr (report', values)" and "fm \<noteq> []"
  shows "values \<noteq> [] \<longleftrightarrow> list_ex (survives fm) (entries item (fst key_map))"
    and "report' = (if values \<noteq> [] then AList.update (snd key_map) (JList (map JObj values)) report else report)"
    and "list_all no_null_entry (map JObj values)"
    and "\<exists>d. item = JObj d"
proof -
  from assms(1) obtain source xs where s: "py_get_default item (fst key_map) = Inr source"
    and i: "py_iter source = Inr xs" and l: "parse_list_loop xs fm [] = Inr values"
    and r: "report' = (if values \<noteq> [] then AList.update (snd key_map) (JList (map JObj values)) report else report)"
    by (auto simp: parse_list_def bind_err_Inr_iff)
  note p = parse_list_loop_Inr [OF l assms(2)]
  from p have "xs = entries item (fst key_map)" by (intro py_iter_entries [OF s i]) blast
  with p show "values \<noteq> [] \<longleftrightarrow> list_ex (survives fm) (entries item (fst key_map))" by simp
  from r show "report' = (if values \<noteq> [] then AList.update (snd key_map) (JList (map JObj values)) report else report)" .
  from p show "list_all no_null_entry (map JObj values)" by simp
  from s show "\<exists>d. item = JObj d" by (cases item) simp_all
qed

lemma dict_update_no_null:
  "no_null value \<Longrightarrow> no_null report \<Longrightarrow> no_null (dict_update report value)"
  unfolding dict_update_def
proof (induction "value" arbitrary: report)
  case Nil
  then show ?case by simp
next
  case (Cons kv rest)
  obtain k v where kv: "kv = (k, v)" by (cases kv)
  have "no_null (AList.update k v report)"
    using Cons.prems kv by (simp add: no_null_def list_all_update)
  moreover have "no_null rest" using Cons.prems by (simp add: no_null_def)
  ultimately show ?case using Cons.IH [of "AList.update k v report"] kv by simp
qed

lemma dict_update_keys:
  "fst ` set (dict_update report value) \<subseteq> fst ` set report \<union> fst ` set value"
  unfolding dict_update_def
proof (induction "value" arbitrary: report)
  case Nil
  then show ?case by simp
next
  case (Cons kv rest)
  obtain k v where kv: "kv = (k, v)" by (cases kv)
  have "fst ` set (fold (\<lambda>(k, v). AList.update k v) rest (AList.update k v report))
          \<subseteq> fst ` set (AList.update k v report) \<union> fst ` set rest"
    by (rule Cons.IH)
  also have "\<dots> \<subseteq> fst ` set report \<union> fst ` set (kv # rest)"
    using kv by (auto simp: AList.dom_update)
  finally show ?case using kv by simp
qed

lemma parse_dict_position:
  assumes "parse_dict item [] position_id position_map = Inr (report, value)"
  shows "no_null report" and "fst ` set report \<subseteq> spec_target ` set position_map"
    and "\<exists>d. item = JObj d"
proof -
  from assms obtain item_source where g: "py_get item ''position'' = Inr item_source"
    and v: "(if truthy item_source then map_dict item_source position_map else Inr []) = Inr value"
    and r: "report = (if value \<noteq> [] then dict_update [] value else [])"
    by (auto simp: parse_dict_def position_id_def bind_err_Inr_iff)
  from g show "\<exists>d. item = JObj d" by (cases item) simp_all
  have pm: "position_map \<noteq> []" by (simp add: position_map_def)
  have nv: "no_null value \<and> fst ` set value \<subseteq> spec_target ` set position_map"
  proof (cases "truthy item_source")
    case True
    with v have "map_dict item_source position_map = Inr value" by simp
    from map_dict_Inr(3,4) [OF this pm] show ?thesis by simp
  next
    case False
    with v show ?thesis by (simp add: no_null_def)
  qed
  have n0: "no_null []" by (simp add: no_null_def)
  from dict_update_no_null [of "value" "[]"] nv n0 r
  show "no_null report" by (simp split: if_splits)
  from dict_update_keys [of "[]" "value"] nv r
  show "fst ` set report \<subseteq> spec_target ` set position_map"
    by (auto split: if_splits)
qed

lemma position_targets:
  "k \<in> spec_target ` set position_map \<Longrightarrow> k \<notin> set [''timestamp'', ''blue'', ''cell'', ''wifi'']"
  by (auto simp: position_map_def)

lemma transform_steps:
  assumes "InternalTransform_call item = Inr out"
  obtains d r0 pos blues cells wifis where
    "item = JObj d"
    "parse_dict item [] position_id position_map = Inr (r0, pos)"
    "list_ex (survives blue_map) (entries item ''bluetoothBeacons'') \<longleftrightarrow> blues \<noteq> []"
    "list_ex (survives cell_map) (entries item ''cellTowers'') \<longleftrightarrow> cells \<noteq> []"
    "list_ex (survives wifi_map) (entries item ''wifiAccessPoints'') \<longleftrightarrow> wifis \<noteq> []"
    "list_all no_null_entry (map JObj blues)"
    "list_all no_null_entry (map JObj cells)"
    "list_all no_null_entry (map JObj wifis)"
    "out = (if blues \<noteq> [] \<or> cells \<noteq> [] \<or> wifis \<noteq> [] then
              (let r1 = (if truthy (dict_get d ''timestamp'')
                         then AList.update ''timestamp'' (dict_get d ''timestamp'') r0 else r0);
                   r2 = (if blues \<noteq> [] then AList.update ''blue'' (JList (map JObj blues)) r1 else r1);
                   r3 = (if cells \<noteq> [] then AList.update ''cell'' (JList (map JObj cells)) r2 else r2)
               in if wifis \<noteq> [] then AList.update ''wifi'' (JList (map JObj wifis)) r3 else r3)
            else [])"
proof -
  from assms obtain r0 pos ts r2 blues r3 cells r4 wifis where
      p: "parse_dict item [] position_id position_map = Inr (r0, pos)"
    and t: "py_get item ''timestamp'' = Inr ts"
    and b: "parse_list item (if truthy ts then AList.update ''timestamp'' ts r0 else r0)
              blue_id blue_map = Inr (r2, blues)"
    and c: "parse_list item r2 cell_id cell_map = Inr (r3, cells)"
    and w: "parse_list item r3 wifi_id wifi_map = Inr (r4, wifis)"
    and o: "out = (if blues \<noteq> [] \<or> cells \<noteq> [] \<or> wifis \<noteq> [] then r4 else [])"
    by (auto simp: InternalTransform_call_def bind_err_Inr_iff Let_def)
  from parse_dict_position(3) [OF p] obtain d where d: "item = JObj d" by blast
  with t have ts: "ts = dict_get d ''timestamp''" by simp
  have ne: "blue_map \<noteq> []" "cell_map \<noteq> []" "wifi_map \<noteq> []"
    by (simp_all add: blue_map_def cell_map_def wifi_map_def)
  note pb = parse_list_Inr [OF b ne(1)]
  note pc = parse_list_Inr [OF c ne(2)]
  note pw = parse_list_Inr [OF w ne(3)]
  show thesis
  proof (rule that [of d r0 pos blues cells wifis])
    show "item = JObj d" by (rule d)
    show "parse_dict item [] position_id position_map = Inr (r0, pos)" by (rule p)
    show "list_ex (survives blue_map) (entries item ''bluetoothBeacons'') \<longleftrightarrow> blues \<noteq> []"
      using pb(1) by (simp add: blue_id_def)
    show "list_ex (survives cell_map) (entries item ''cellTowers'') \<longleftrightarrow> cells \<noteq> []"
      using pc(1) by (simp add: cell_id_def)
    show "list_ex (survives wifi_map) (entries item ''wifiAccessPoints'') \<longleftrightarrow> wifis \<noteq> []"
      using pw(1) by (simp add: wifi_id_def)
    show "list_all no_null_entry (map JObj blues)" by (rule pb(3))
    show "list_all no_null_entry (map JObj cells)" by (rule pc(3))
    show "list_all no_null_entry (map JObj wifis)" by (rule pw(3))
    show "out = (if blues \<noteq> [] \<or> cells \<noteq> [] \<or> wifis \<noteq> [] then
              (let r1 = (if truthy (dict_get d ''timestamp'')
                         then AList.update ''timestamp'' (dict_get d ''timestamp'') r0 else r0);
                   r2 = (if blues \<noteq> [] then AList.update ''blue'' (JList (map JObj blues)) r1 else r1);
                   r3 = (if cells \<noteq> [] then AList.update ''cell'' (JList (map JObj cells)) r2 else r2)
               in if wifis \<noteq> [] then AList.update ''wifi'' (JList (map JObj wifis)) r3 else r3)
            else [])"
      unfolding o pw(2) pc(2) pb(2) ts
      by (simp add: Let_def blue_id_def cell_id_def wifi_id_def)
  qed
qed

text \<open>
  Claim C5, as the code has it: the transform copies the value under \<^verbatim>\<open>timestamp\<close>
  into a report it does not drop only when the value is true as a condition. A timestamp
  that is absent, null or false, among them the number 0, leaves no key
  \<^verbatim>\<open>timestamp\<close> in the output.
\<close>

theorem transform_timestamp:
  assumes "InternalTransform_call item = Inr report" and "report \<noteq> []"
  shows "\<exists>d. item = JObj d
           \<and> map_of report ''timestamp'' =
               (if truthy (dict_get d ''timestamp'') then Some (dict_get d ''timestamp'') else None)"
proof -
  from assms(1) obtain d r0 pos blues cells wifis where
      d: "item = JObj d"
    and p: "parse_dict item [] position_id position_map = Inr (r0, pos)"
    and o: "report = (if blues \<noteq> [] \<or> cells \<noteq> [] \<or> wifis \<noteq> [] then
              (let r1 = (if truthy (dict_get d ''timestamp'')
                         then AList.update ''timestamp'' (dict_get d ''timestamp'') r0 else r0);
                   r2 = (if blues \<noteq> [] then AList.update ''blue'' (JList (map JObj blues)) r1 else r1);
                   r3 = (if cells \<noteq> [] then AList.update ''cell'' (JList (map JObj cells)) r2 else r2)
               in if wifis \<noteq> [] then AList.update ''wifi'' (JList (map JObj wifis)) r3 else r3)
            else [])"
    by (rule transform_steps)
  have "''timestamp'' \<notin> fst ` set r0"
    using parse_dict_position(2) [OF p] position_targets [of "''timestamp''"] by auto
  hence "map_of r0 ''timestamp'' = None"
    by (simp add: map_of_eq_None_iff)
  with o assms(2) have "map_of report ''timestamp'' =
      (if truthy (dict_get d ''timestamp'') then Some (dict_get d ''timestamp'') else None)"
    by (simp add: Let_def AList.update_conv' split: if_splits)
  with d show ?thesis by blast
qed



lemma sample_transform:
  "InternalTransform_call sample_report =
     Inr [(''lat'', JNum (3 / 2)), (''lon'', JNum (5 / 2)), (''accuracy'', JNum 10),
          (''altitude_accuracy'', JNum 3), (''timestamp'', JNum 1500000000000),
          (''wifi'', JList [JObj [(''mac'', JStr ''aa:bb''), (''signal'', JNum (- 50))]])]"
  by (simp add: InternalTransform_call_def sample_report_def parse_dict_def parse_list_def
      position_id_def position_map_def blue_id_def blue_map_def cell_id_def cell_map_def
      wifi_id_def wifi_map_def map_dict_def dict_get_def dict_update_def)

text \<open>
  A report with the timestamp 0 and one wifi entry: the output has the wifi entry and
  no timestamp.
\<close>

theorem transform_timestamp_zero_counterexample:
  "InternalTransform_call epoch_report = Inr [(''wifi'', JList [JObj [(''mac'', JStr ''aa:bb'')]])]"
  by (simp add: InternalTransform_call_def epoch_report_def parse_dict_def parse_list_def
      position_id_def position_map_def blue_id_def blue_map_def cell_id_def cell_map_def
      wifi_id_def wifi_map_def map_dict_def dict_get_def dict_update_def)

theorem transform_timestamp_witness:
  "map_of [(''lat'', JNum (3 / 2)), (''lon'', JNum (5 / 2)), (''accuracy'', JNum 10),
          (''altitude_accuracy'', JNum 3), (''timestamp'', JNum 1500000000000),
          (''wifi'', JList [JObj [(''mac'', JStr ''aa:bb''), (''signal'', JNum (- 50))]])] ''timestamp'' = Some (JNum 1500000000000)"
  using transform_timestamp [OF sample_transform]
  by (simp add: sample_report_def dict_get_def)

section \<open>Properties of the dispatcher\<close>

lemma dd_extend_cases:
  "(k', vs) \<in> set (dd_extend d k ws) \<Longrightarrow>
   (k', vs) \<in> set d \<or> (k' = k \<and> (vs = ws \<or> (\<exists>vs0. (k, vs0) \<in> set d \<and> vs = vs0 @ ws)))"
  by (induction d k ws rule: dd_extend.induct) (auto split: if_splits)

lemma dd_extend_keeps:
  "(k', vs) \<in> set d \<Longrightarrow> \<exists>vs'. (k', vs') \<in> set (dd_extend d k ws) \<and> set vs \<subseteq> set vs'"
  by (induction d k ws rule: dd_extend.induct) auto

lemma dd_extend_adds:
  "\<exists>vs. (k, vs) \<in> set (dd_extend d k ws) \<and> set ws \<subseteq> set vs"
  by (induction d k ws rule: dd_extend.induct) auto

lemma group_items_ok:
  assumes "group_items data grouped = Inr grouped'"
      and "grouped_ok all grouped" and "set data \<subseteq> set all"
  shows "grouped_ok all grouped'"
  using assms
proof (induction data arbitrary: grouped)
  case Nil
  then show ?case by simp
next
  case (Cons item data)
  from Cons.prems(1) obtain a k n r where
      a: "py_getitem item ''api_key'' = Inr a" and k: "hash_key a = Inr k"
    and n: "py_getitem item ''nickname'' = Inr n" and r: "py_getitem item ''report'' = Inr r"
    and g: "group_items data (dd_append grouped k (envelope a n r)) = Inr grouped'"
    by (auto simp: bind_err_Inr_iff envelope_def)
  have "grouped_ok all (dd_append grouped k (envelope a n r))"
    unfolding grouped_ok_def
  proof (intro ballI, clarify)
    fix k' items x
    assume m: "(k', items) \<in> set (dd_append grouped k (envelope a n r))" and x: "x \<in> set items"
    from dd_extend_cases [OF m [unfolded dd_append_def]]
    consider "(k', items) \<in> set grouped"
      | "k' = k" "items = [envelope a n r]"
      | vs0 where "k' = k" "(k, vs0) \<in> set grouped" "items = vs0 @ [envelope a n r]"
      by blast
    then show "\<exists>item \<in> set all. \<exists>a n r.
          py_getitem item ''api_key'' = Inr a \<and> py_getitem item ''nickname'' = Inr n
          \<and> py_getitem item ''report'' = Inr r \<and> hash_key a = Inr k' \<and> x = envelope a n r"
    proof cases
      case 1
      with Cons.prems(2) x show ?thesis unfolding grouped_ok_def by blast
    next
      case 2
      with x a k n r Cons.prems(3) show ?thesis by auto
    next
      case 3
      show ?thesis
      proof (cases "x \<in> set vs0")
        case True
        with 3 Cons.prems(2) show ?thesis unfolding grouped_ok_def by blast
      next
        case False
        with 3 x have "x = envelope a n r" by simp
        with 3 a k n r Cons.prems(3) show ?thesis by auto
      qed
    qed
  qed
  moreover have "set data \<subseteq> set all" using Cons.prems(3) by simp
  ultimately show ?case using Cons.IH [OF g] by blast
qed

lemma enqueue_group_ops:
  "enqueue_group api_key items queues = Inr ops \<Longrightarrow> (Q, qk, xs) \<in> set ops \<Longrightarrow>
   Q \<in> set queues \<and> export_allowed Q api_key \<and> queue_key Q api_key = Inr qk \<and> xs = items"
proof (induction queues arbitrary: ops)
  case Nil
  then show ?case by simp
next
  case (Cons queue queues)
  show ?case
  proof (cases "export_allowed queue api_key")
    case True
    with Cons.prems(1) obtain qk' ops' where
        q: "queue_key queue api_key = Inr qk'"
      and e: "enqueue_group api_key items queues = Inr ops'"
      and o: "ops = (queue, qk', items) # ops'"
      by (auto simp: bind_err_Inr_iff)
    from Cons.prems(2) o consider "(Q, qk, xs) = (queue, qk', items)" | "(Q, qk, xs) \<in> set ops'"
      by auto
    then show ?thesis
    proof cases
      case 1
      with True q show ?thesis by simp
    next
      case 2
      from Cons.IH [OF e 2] show ?thesis by simp
    qed
  next
    case False
    with Cons.prems have "enqueue_group api_key items queues = Inr ops" by simp
    from Cons.IH [OF this Cons.prems(2)] show ?thesis by simp
  qed
qed

lemma enqueue_groups_ops:
  "enqueue_groups grouped queues = Inr ops \<Longrightarrow> (Q, qk, xs) \<in> set ops \<Longrightarrow>
   \<exists>k. (k, xs) \<in> set grouped \<and> Q \<in> set queues \<and> export_allowed Q k \<and> queue_key Q k = Inr qk"
proof (induction grouped arbitrary: ops)
  case Nil
  then show ?case by simp
next
  case (Cons g grouped)
  obtain k items where g: "g = (k, items)" by (cases g)
  from Cons.prems(1) g obtain ops1 ops2 where
      e1: "enqueue_group k items queues = Inr ops1"
    and e2: "enqueue_groups grouped queues = Inr ops2"
    and o: "ops = ops1 @ ops2"
    by (auto simp: bind_err_Inr_iff)
  from Cons.prems(2) o consider "(Q, qk, xs) \<in> set ops1" | "(Q, qk, xs) \<in> set ops2" by auto
  then show ?case
  proof cases
    case 1
    from enqueue_group_ops [OF e1 1] g show ?thesis by auto
  next
    case 2
    from Cons.IH [OF e2 2] show ?thesis by auto
  qed
qed

lemma export_allowed_hash_key:
  "hash_key a = Inr k \<Longrightarrow> export_allowed Q k \<Longrightarrow> export_allowed Q a"
  by (cases a) (auto simp: export_allowed_def)

text \<open>
  Claim C8: every item the dispatcher enqueues into a partition of an export queue is
  the rebuilt envelope of an ingress item whose \<^verbatim>\<open>api_key\<close> is not among the skip keys
  of that queue. An ingress envelope whose key is among them is therefore enqueued into
  no partition of the queue.
\<close>

theorem skip_keys_honoured:
  assumes "IncomingQueue_call export_queues data = Inr ops"
      and "(Q, qk, items) \<in> set ops" and "x \<in> set items"
  shows "\<exists>item \<in> set data. \<exists>a n r.
           py_getitem item ''api_key'' = Inr a \<and> x = envelope a n r
           \<and> (\<forall>s. a = JStr s \<longrightarrow> s \<notin> set (q_skip_keys Q))"
proof -
  from assms(1) obtain grouped where g: "group_items data [] = Inr grouped"
    and e: "enqueue_groups grouped export_queues = Inr ops"
    by (auto simp: IncomingQueue_call_def bind_err_Inr_iff)
  have "grouped_ok data grouped"
    by (rule group_items_ok [OF g]) (simp_all add: grouped_ok_def)
  moreover from enqueue_groups_ops [OF e assms(2)] obtain k where
      k: "(k, items) \<in> set grouped" "export_allowed Q k" by blast
  ultimately obtain item a n r where i: "item \<in> set data"
      "py_getitem item ''api_key'' = Inr a" "hash_key a = Inr k" "x = envelope a n r"
    using assms(3) unfolding grouped_ok_def by blast
  from export_allowed_hash_key [OF i(3) k(2)]
  have "\<forall>s. a = JStr s \<longrightarrow> s \<notin> set (q_skip_keys Q)"
    by (auto simp: export_allowed_def)
  with i show ?thesis by blast
qed

lemma group_items_keeps:
  "group_items data grouped = Inr grouped' \<Longrightarrow> (k, vs) \<in> set grouped \<Longrightarrow>
   \<exists>vs'. (k, vs') \<in> set grouped' \<and> set vs \<subseteq> set vs'"
proof (induction data arbitrary: grouped vs)
  case Nil
  then show ?case by auto
next
  case (Cons item data)
  from Cons.prems(1) obtain k' e where
      g: "group_items data (dd_append grouped k' e) = Inr grouped'"
    by (auto simp: bind_err_Inr_iff)
  from dd_extend_keeps [OF Cons.prems(2), of k' "[e]"] obtain vs1 where
      v: "(k, vs1) \<in> set (dd_append grouped k' e)" "set vs \<subseteq> set vs1"
    by (auto simp: dd_append_def)
  from Cons.IH [OF g v(1)] v(2) show ?case by blast
qed

lemma group_items_has:
  assumes "group_items data grouped = Inr grouped'" and "item \<in> set data"
  shows "\<exists>a k n r vs. py_getitem item ''api_key'' = Inr a \<and> hash_key a = Inr k
           \<and> py_getitem item ''nickname'' = Inr n \<and> py_getitem item ''report'' = Inr r
           \<and> (k, vs) \<in> set grouped' \<and> envelope a n r \<in> set vs"
  using assms
proof (induction data arbitrary: grouped)
  case Nil
  then show ?case by simp
next
  case (Cons i data)
  from Cons.prems(1) obtain a k n r where
      a: "py_getitem i ''api_key'' = Inr a" and k: "hash_key a = Inr k"
    and n: "py_getitem i ''nickname'' = Inr n" and r: "py_getitem i ''report'' = Inr r"
    and g: "group_items data (dd_append grouped k (envelope a n r)) = Inr grouped'"
    by (auto simp: bind_err_Inr_iff envelope_def)
  show ?case
  proof (cases "item = i")
    case True
    from dd_extend_adds [of k grouped "[envelope a n r]"] obtain vs where
        "(k, vs) \<in> set (dd_append grouped k (envelope a n r))" "envelope a n r \<in> set vs"
      by (auto simp: dd_append_def)
    with group_items_keeps [OF g] obtain vs' where
        "(k, vs') \<in> set grouped'" "envelope a n r \<in> set vs'" by blast
    with True a k n r show ?thesis by blast
  next
    case False
    with Cons.prems(2) have "item \<in> set data" by simp
    from Cons.IH [OF g this] show ?thesis .
  qed
qed

lemma enqueue_group_has:
  "enqueue_group api_key items queues = Inr ops \<Longrightarrow> Q \<in> set queues \<Longrightarrow>
   export_allowed Q api_key \<Longrightarrow>
   \<exists>qk. queue_key Q api_key = Inr qk \<and> (Q, qk, items) \<in> set ops"
proof (induction queues arbitrary: ops)
  case Nil
  then show ?case by simp
next
  case (Cons queue queues)
  show ?case
  proof (cases "export_allowed queue api_key")
    case True
    with Cons.prems(1) obtain qk' ops' where
        q: "queue_key queue api_key = Inr qk'"
      and e: "enqueue_group api_key items queues = Inr ops'"
      and o: "ops = (queue, qk', items) # ops'"
      by (auto simp: bind_err_Inr_iff)
    show ?thesis
    proof (cases "Q = queue")
      case True
      with q o show ?thesis by auto
    next
      case False
      with Cons.prems(2) have "Q \<in> set queues" by simp
      from Cons.IH [OF e this Cons.prems(3)] o show ?thesis by auto
    qed
  next
    case False
    with Cons.prems have e: "enqueue_group api_key items queues = Inr ops" and "Q \<in> set queues"
      by auto
    from Cons.IH [OF e this(2) Cons.prems(3)] show ?thesis .
  qed
qed

lemma enqueue_groups_has:
  "enqueue_groups grouped queues = Inr ops \<Longrightarrow> (k, items) \<in> set grouped \<Longrightarrow>
   Q \<in> set queues \<Longrightarrow> export_allowed Q k \<Longrightarrow>
   \<exists>qk. queue_key Q k = Inr qk \<and> (Q, qk, items) \<in> set ops"
proof (induction grouped arbitrary: ops)
  case Nil
  then show ?case by simp
next
  case (Cons g grouped)
  obtain k' items' where g: "g = (k', items')" by (cases g)
  from Cons.prems(1) g obtain ops1 ops2 where
      e1: "enqueue_group k' items' queues = Inr ops1"
    and e2: "enqueue_groups grouped queues = Inr ops2"
    and o: "ops = ops1 @ ops2"
    by (auto simp: bind_err_Inr_iff)
  show ?case
  proof (cases "(k, items) = g")
    case True
    with g e1 have "enqueue_group k items queues = Inr ops1" by simp
    from enqueue_group_has [OF this Cons.prems(3,4)] o show ?thesis by auto
  next
    case False
    with Cons.prems(2) have "(k, items) \<in> set grouped" by simp
    from Cons.IH [OF e2 this Cons.prems(3,4)] o show ?thesis by auto
  qed
qed

text \<open>
  Claim C10, for a key that is present and null: when the dispatcher returns, an ingress
  item with a null \<^verbatim>\<open>api_key\<close> is enqueued into every export queue, in a group whose
  items all have the null key, under the queue key \<^verbatim>\<open>name:no_key\<close> for an
  object-store queue, and as an envelope of exactly the keys \<^verbatim>\<open>api_key\<close>,
  \<^verbatim>\<open>nickname\<close> and \<^verbatim>\<open>report\<close>.
\<close>

theorem null_api_key_dispatched:
  assumes "IncomingQueue_call export_queues data = Inr ops"
      and "item \<in> set data" and "py_getitem item ''api_key'' = Inr JNull"
      and "Q \<in> set export_queues"
  shows "export_allowed Q JNull
       \<and> (\<exists>n r items.
            py_getitem item ''nickname'' = Inr n \<and> py_getitem item ''report'' = Inr r
            \<and> (Q, (if q_klass Q = S3ExportQueue then q_name Q @ '':no_key'' else q_name Q), items)
                \<in> set ops
            \<and> JObj [(''api_key'', JNull), (''nickname'', n), (''report'', r)] \<in> set items
            \<and> (\<forall>x \<in> set items. \<exists>n' r'.
                  x = JObj [(''api_key'', JNull), (''nickname'', n'), (''report'', r')]))"
proof -
  from assms(1) obtain grouped where g: "group_items data [] = Inr grouped"
    and e: "enqueue_groups grouped export_queues = Inr ops"
    by (auto simp: IncomingQueue_call_def bind_err_Inr_iff)
  have ok: "grouped_ok data grouped"
    by (rule group_items_ok [OF g]) (simp_all add: grouped_ok_def)
  from group_items_has [OF g assms(2)] assms(3) obtain n r vs where
      n: "py_getitem item ''nickname'' = Inr n" and r: "py_getitem item ''report'' = Inr r"
    and v: "(JNull, vs) \<in> set grouped" "envelope JNull n r \<in> set vs"
    by auto
  have al: "export_allowed Q JNull" by (simp add: export_allowed_def)
  from enqueue_groups_has [OF e v(1) assms(4) al] obtain qk where
      qk: "queue_key Q JNull = Inr qk" "(Q, qk, vs) \<in> set ops" by blast
  from qk(1) have q: "qk = (if q_klass Q = S3ExportQueue then q_name Q @ '':no_key'' else q_name Q)"
    by (auto simp: queue_key_def split: if_splits)
  have "\<forall>x \<in> set vs. \<exists>n' r'. x = JObj [(''api_key'', JNull), (''nickname'', n'), (''report'', r')]"
  proof
    fix x assume "x \<in> set vs"
    with ok v(1) obtain a n' r' where h: "hash_key a = Inr JNull" "x = envelope a n' r'"
      unfolding grouped_ok_def by blast
    from h(1) have "a = JNull" by (cases a) (auto split: if_splits)
    with h(2) show "\<exists>n' r'. x = JObj [(''api_key'', JNull), (''nickname'', n'), (''report'', r')]"
      by (auto simp: envelope_def)
  qed
  with al n r v(2) qk(2) q show ?thesis
    by (auto simp: envelope_def)
qed

lemma sample_dispatch:
  "IncomingQueue_call [sample_queue, s3_queue] sample_data =
     Inr [(sample_queue, ''queue_export_test'', [envelope (JStr ''A'') JNull (JObj [])]),
          (sample_queue, ''queue_export_test'', [envelope JNull (JStr ''alice'') (JObj [])]),
          (s3_queue, ''queue_export_backup:no_key'', [envelope JNull (JStr ''alice'') (JObj [])]),
          (sample_queue, ''queue_export_test'', [envelope (JStr ''B'') JNull (JObj [])]),
          (s3_queue, ''queue_export_backup:B'', [envelope (JStr ''B'') JNull (JObj [])])]"
  by (simp add: IncomingQueue_call_def sample_data_def envelope_def dd_append_def
      export_allowed_def queue_key_def sample_queue_def s3_queue_def)

theorem skip_keys_honoured_witness:
  "\<exists>item \<in> set sample_data. \<exists>a n r.
     py_getitem item ''api_key'' = Inr a \<and> envelope (JStr ''B'') JNull (JObj []) = envelope a n r
     \<and> (\<forall>s. a = JStr s \<longrightarrow> s \<notin> set (q_skip_keys s3_queue))"
  using skip_keys_honoured [OF sample_dispatch, of s3_queue "''queue_export_backup:B''"
      "[envelope (JStr ''B'') JNull (JObj [])]" "envelope (JStr ''B'') JNull (JObj [])"]
  by simp

theorem null_api_key_dispatched_witness:
  "export_allowed s3_queue JNull
   \<and> (\<exists>n r items.
        py_getitem (envelope JNull (JStr ''alice'') (JObj [])) ''nickname'' = Inr n
        \<and> py_getitem (envelope JNull (JStr ''alice'') (JObj [])) ''report'' = Inr r
        \<and> (s3_queue, ''queue_export_backup:no_key'', items)
            \<in> set [(sample_queue, ''queue_export_test'', [envelope (JStr ''A'') JNull (JObj [])]),
          (sample_queue, ''queue_export_test'', [envelope JNull (JStr ''alice'') (JObj [])]),
          (s3_queue, ''queue_export_backup:no_key'', [envelope JNull (JStr ''alice'') (JObj [])]),
          (sample_queue, ''queue_export_test'', [envelope (JStr ''B'') JNull (JObj [])]),
          (s3_queue, ''queue_export_backup:B'', [envelope (JStr ''B'') JNull (JObj [])])]
        \<and> JObj [(''api_key'', JNull), (''nickname'', n), (''report'', r)] \<in> set items
        \<and> (\<forall>x \<in> set items. \<exists>n' r'.
              x = JObj [(''api_key'', JNull), (''nickname'', n'), (''report'', r')]))"
proof -
  have i: "envelope JNull (JStr ''alice'') (JObj []) \<in> set sample_data"
    by (simp add: sample_data_def)
  have k: "py_getitem (envelope JNull (JStr ''alice'') (JObj [])) ''api_key'' = Inr JNull"
    by (simp add: envelope_def)
  have q: "s3_queue \<in> set [sample_queue, s3_queue]" by simp
  have e: "(if q_klass s3_queue = S3ExportQueue then q_name s3_queue @ '':no_key''
            else q_name s3_queue) = ''queue_export_backup:no_key''"
    by (simp add: s3_queue_def)
  from null_api_key_dispatched [OF sample_dispatch i k q] show ?thesis
    unfolding e .
qed

text \<open>
  An ingress item without the key \<^verbatim>\<open>api_key\<close> is not distributed: the subscript
  \<^verbatim>\<open>item['api_key']\<close> raises \<^verbatim>\<open>KeyError\<close> and nothing is enqueued.
\<close>

theorem missing_api_key_counterexample:
  "IncomingQueue_call [sample_queue, s3_queue] [keyless_item] = Inl KeyError"
  by (simp add: IncomingQueue_call_def keyless_item_def)
section \<open>Properties of the internal sink\<close>

lemmas send_defs =
  send_def process_reports_def shard_queue_def process_report_def process_type_def
  process_user_def process_score_def dd_append_def set_add_def hold_def dict_get_def Let_def

lemmas model_defs =
  sample_models_def sample_Report_create_def sample_item_create_def sample_combine_def
  sample_unique_key_def sample_better_def sample_shard_id_def sample_utc_time_def

lemmas sample_defs =
  sample_models_def sample_Report_create_def sample_item_create_def sample_combine_def
  sample_unique_key_def sample_better_def sample_shard_id_def sample_utc_time_def
  weak_wifi_def strong_wifi_def external_report_def sample_batch_def
  empty_session_def envelope_def

lemmas transform_defs =
  InternalTransform_call_def parse_dict_def parse_list_def
  position_id_def position_map_def blue_id_def blue_map_def cell_id_def cell_map_def
  wifi_id_def wifi_map_def map_dict_def dict_get_def dict_update_def

lemma format_sample:
  "format_report sample_models (external_report s) =
     Inr [(''lat'', JNum (3 / 2)), (''lon'', JNum (5 / 2)),
          (''wifi'', JList [JObj [(''mac'', JStr ''aa:bb''), (''signal'', JNum s)]])]"
  by (simp add: format_report_def sample_defs transform_defs)

lemma hold_cases:
  "hold M held c = held \<or> hold M held c = AList.update (unique_key M c) c held"
  by (simp add: hold_def Let_def split: option.splits)

lemma map_of_hold:
  "map_of (hold M held c) k =
     (if unique_key M c = k
      then Some (case map_of held k of None \<Rightarrow> c | Some e \<Rightarrow> if better M e c then e else c)
      else map_of held k)"
  by (auto simp: hold_def Let_def AList.update_conv' split: option.splits)

lemma hold_keys:
  "map_of held (unique_key M c) = Some e \<Longrightarrow> map fst (hold M held c) = map fst held"
proof -
  assume m: "map_of held (unique_key M c) = Some e"
  hence "unique_key M c \<in> fst ` set held" by (force dest: map_of_SomeD)
  hence "map fst (AList.update (unique_key M c) c held) = map fst held"
    by (simp add: AList.update_keys)
  with hold_cases [of M held c] show ?thesis by auto
qed

text \<open>
  Claim C7: one round of the loop over the transmitter list of a report, for a valid
  entry whose unique key is already held, returns with the count of malformed entries
  unchanged and a dictionary that has the same keys in the same order, and differs from
  the one before at most under that key: there it holds the existing observation if
  \<^verbatim>\<open>existing.better(new)\<close> holds, and the new observation otherwise. The loop goes
  on from that dictionary.
\<close>

theorem held_or_replaced:
  assumes "item_create M name d = Some item_report"
      and "new = combine M name report item_report"
      and "map_of held (unique_key M new) = Some existing"
  shows "\<exists>held'.
           process_items M name report [JObj d] (malformed, held) = Inr (malformed, held')
           \<and> map_of held'
               = (map_of held)(unique_key M new \<mapsto> (if better M existing new then existing else new))
           \<and> map fst held' = map fst held
           \<and> process_items M name report (JObj d # items) (malformed, held)
               = process_items M name report items (malformed, held')"
proof -
  have 1: "process_items M name report [JObj d] (malformed, held)
             = Inr (malformed, hold M held new)"
    using assms(1,2) by simp
  have 2: "map_of (hold M held new)
             = (map_of held)(unique_key M new \<mapsto> (if better M existing new then existing else new))"
    using assms(3) by (auto simp: map_of_hold)
  have 3: "map fst (hold M held new) = map fst held"
    by (rule hold_keys [OF assms(3)])
  have 4: "process_items M name report (JObj d # items) (malformed, held)
             = process_items M name report items (malformed, hold M held new)"
    using assms(1,2) by simp
  from 1 2 3 4 show ?thesis by blast
qed

text \<open>
  The stronger observation is kept against a weaker one; an observation of equal
  strength replaces the one held.
\<close>

theorem held_or_replaced_witness:
  "(\<exists>held'. process_items sample_models Wifi [] [JObj weak_wifi]
               (0, [(JStr ''aa:bb'', sample_combine Wifi [] strong_wifi)]) = Inr (0, held')
      \<and> map_of held' (JStr ''aa:bb'') = Some (sample_combine Wifi [] strong_wifi)
      \<and> map fst held' = [JStr ''aa:bb''])
   \<and> (\<exists>held'. process_items sample_models Wifi [] [JObj tied_wifi]
               (0, [(JStr ''aa:bb'', sample_combine Wifi [] weak_wifi)]) = Inr (0, held')
      \<and> map_of held' (JStr ''aa:bb'') = Some (sample_combine Wifi [] tied_wifi)
      \<and> map fst held' = [JStr ''aa:bb''])"
proof -
  let ?strong = "sample_combine Wifi [] strong_wifi"
  let ?weak = "sample_combine Wifi [] weak_wifi"
  let ?tied = "sample_combine Wifi [] tied_wifi"
  have k: "unique_key sample_models ?weak = JStr ''aa:bb''"
      "unique_key sample_models ?tied = JStr ''aa:bb''"
    by (simp_all add: model_defs weak_wifi_def tied_wifi_def)
  have b: "better sample_models ?strong ?weak" "\<not> better sample_models ?weak ?tied"
    by (simp_all add: model_defs weak_wifi_def strong_wifi_def tied_wifi_def dict_get_def)
  have c: "item_create sample_models Wifi weak_wifi = Some weak_wifi"
      "item_create sample_models Wifi tied_wifi = Some tied_wifi"
    by (simp_all add: model_defs weak_wifi_def tied_wifi_def)
  have n: "?weak = combine sample_models Wifi [] weak_wifi"
      "?tied = combine sample_models Wifi [] tied_wifi"
    by (simp_all add: model_defs)
  have m: "map_of [(JStr ''aa:bb'', ?strong)] (unique_key sample_models ?weak) = Some ?strong"
      "map_of [(JStr ''aa:bb'', ?weak)] (unique_key sample_models ?tied) = Some ?weak"
    by (simp_all add: k)
  from held_or_replaced [OF c(1) n(1) m(1), of 0 "[]"] obtain kept where
      1: "process_items sample_models Wifi [] [JObj weak_wifi] (0, [(JStr ''aa:bb'', ?strong)])
            = Inr (0, kept)"
         "map_of kept
            = (map_of [(JStr ''aa:bb'', ?strong)])(unique_key sample_models ?weak \<mapsto>
                 (if better sample_models ?strong ?weak then ?strong else ?weak))"
         "map fst kept = map fst [(JStr ''aa:bb'', ?strong)]"
    by blast
  from held_or_replaced [OF c(2) n(2) m(2), of 0 "[]"] obtain replaced where
      2: "process_items sample_models Wifi [] [JObj tied_wifi] (0, [(JStr ''aa:bb'', ?weak)])
            = Inr (0, replaced)"
         "map_of replaced
            = (map_of [(JStr ''aa:bb'', ?weak)])(unique_key sample_models ?tied \<mapsto>
                 (if better sample_models ?weak ?tied then ?weak else ?tied))"
         "map fst replaced = map fst [(JStr ''aa:bb'', ?weak)]"
    by blast
  from 1 b(1) k(1) have "map_of kept (JStr ''aa:bb'') = Some ?strong" by simp
  moreover from 2 b(2) k(2) have "map_of replaced (JStr ''aa:bb'') = Some ?tied" by simp
  ultimately show ?thesis using 1(1,3) 2(1,3) by simp
qed

lemma held_ok_hold: "held_ok M held \<Longrightarrow> held_ok M (hold M held c)"
proof -
  assume h: "held_ok M held"
  have "held_ok M (AList.update (unique_key M c) c held)"
    using h set_update_subset [of "unique_key M c" c held]
    by (auto simp: held_ok_def AList.distinct_update)
  with h hold_cases [of M held c] show ?thesis by auto
qed

lemma process_items_fold:
  "process_items M name report items (malformed, held) = Inr (malformed', held') \<Longrightarrow>
   held' = fold (\<lambda>c h. hold M h c) (candidates M name report items) held"
proof (induction items arbitrary: malformed held)
  case Nil
  then show ?case by simp
next
  case (Cons item items)
  then show ?case
    by (cases item) (auto split: option.splits)
qed

lemma held_ok_fold: "held_ok M held \<Longrightarrow> held_ok M (fold (\<lambda>c h. hold M h c) cs held)"
  by (induction cs arbitrary: held) (simp_all add: held_ok_hold)

lemma fold_hold_contest:
  "map_of (fold (\<lambda>c h. hold M h c) cs held) k =
     (case map_of held k of
        None \<Rightarrow> retained M cs k
      | Some e \<Rightarrow> Some (contest M e (filter (\<lambda>c. unique_key M c = k) cs)))"
proof (induction cs arbitrary: held)
  case Nil
  then show ?case by (simp add: retained_def split: option.splits)
next
  case (Cons c cs)
  show ?case
    by (simp add: Cons.IH map_of_hold retained_def split: option.splits)
qed

lemma retained_keys: "retained M cs k \<noteq> None \<longleftrightarrow> k \<in> unique_key M ` set cs"
proof -
  have "filter (\<lambda>c. unique_key M c = k) cs \<noteq> [] \<longleftrightarrow> k \<in> unique_key M ` set cs"
    by (auto simp: filter_empty_conv)
  then show ?thesis by (auto simp: retained_def split: list.splits)
qed

lemma held_ok_map_of: "held_ok M held \<Longrightarrow> (k, r) \<in> set held \<Longrightarrow> map_of held (unique_key M r) = Some r"
  by (auto simp: held_ok_def)

lemma fold_hold_retained:
  shows "held_ok M (fold (\<lambda>c h. hold M h c) cs [])"
    and "unique_key M ` set (map snd (fold (\<lambda>c h. hold M h c) cs [])) = unique_key M ` set cs"
    and "\<forall>r \<in> set (map snd (fold (\<lambda>c h. hold M h c) cs [])).
           retained M cs (unique_key M r) = Some r"
proof -
  let ?h = "fold (\<lambda>c h. hold M h c) cs []"
  have e: "held_ok M []" by (simp add: held_ok_def)
  show ok: "held_ok M ?h" by (rule held_ok_fold [OF e])
  have m: "map_of ?h k = retained M cs k" for k
    by (simp add: fold_hold_contest)
  show "\<forall>r \<in> set (map snd ?h). retained M cs (unique_key M r) = Some r"
  proof
    fix r assume "r \<in> set (map snd ?h)"
    then obtain k where "(k, r) \<in> set ?h" by auto
    from held_ok_map_of [OF ok this] m show "retained M cs (unique_key M r) = Some r" by simp
  qed
  have "unique_key M ` set (map snd ?h) = fst ` set ?h"
    using ok by (force simp: held_ok_def)
  also have "\<dots> = dom (map_of ?h)" by (simp add: dom_map_of_conv_image_fst)
  also have "\<dots> = unique_key M ` set cs"
    using retained_keys [of M cs] by (auto simp: m dom_def)
  finally show "unique_key M ` set (map snd ?h) = unique_key M ` set cs" .
qed

lemma process_type_retained:
  assumes "process_type M name report data = Inr (malformed, held)"
      and "Report_create M data = Some report"
  shows "held_ok M held"
    and "unique_key M ` set (map snd held) = unique_key M ` set (report_candidates M name data)"
    and "\<forall>r \<in> set (map snd held). retained M (report_candidates M name data) (unique_key M r) = Some r"
proof -
  let ?v = "dict_get data (type_name name)"
  let ?cs = "report_candidates M name data"
  have "held = fold (\<lambda>c h. hold M h c) ?cs []"
  proof (cases "truthy ?v")
    case True
    with assms(1) obtain items where i: "py_iter ?v = Inr items"
      and p: "process_items M name report items (0, []) = Inr (malformed, held)"
      by (auto simp: process_type_def bind_err_Inr_iff)
    have c: "?cs = candidates M name report items"
      using True i assms(2) by (simp add: report_candidates_def)
    from process_items_fold [OF p] c show ?thesis by simp
  next
    case False
    with assms(1) have "held = []" by (simp add: process_type_def)
    moreover from False assms(2) have "?cs = []" by (simp add: report_candidates_def)
    ultimately show ?thesis by simp
  qed
  with fold_hold_retained [of M ?cs]
  show "held_ok M held"
    and "unique_key M ` set (map snd held) = unique_key M ` set ?cs"
    and "\<forall>r \<in> set (map snd held). retained M ?cs (unique_key M r) = Some r"
    by simp_all
qed

lemma held_ok_distinct: "held_ok M held \<Longrightarrow> distinct (map (unique_key M) (map snd held))"
proof -
  assume h: "held_ok M held"
  have "map (unique_key M \<circ> snd) held = map fst held"
    by (rule map_cong [OF refl]) (use h in \<open>auto simp: held_ok_def\<close>)
  moreover have "distinct (map fst held)" using h by (simp add: held_ok_def)
  ultimately show ?thesis by (simp only: map_map)
qed

lemma process_report_retained:
  assumes "process_report M data = Inr (obs, malformed)"
  shows "distinct (map (unique_key M) (obs name))"
    and "unique_key M ` set (obs name) = unique_key M ` set (report_candidates M name data)"
    and "\<forall>r \<in> set (obs name). retained M (report_candidates M name data) (unique_key M r) = Some r"
proof -
  have "distinct (map (unique_key M) (obs name))
        \<and> unique_key M ` set (obs name) = unique_key M ` set (report_candidates M name data)
        \<and> (\<forall>r \<in> set (obs name). retained M (report_candidates M name data) (unique_key M r) = Some r)"
  proof (cases "Report_create M data")
    case None
    with assms show ?thesis by (auto simp: process_report_def report_candidates_def)
  next
    case (Some report)
    with assms obtain mb hb mc hc mw hw where
        b: "process_type M Blue report data = Inr (mb, hb)"
      and c: "process_type M Cell report data = Inr (mc, hc)"
      and w: "process_type M Wifi report data = Inr (mw, hw)"
      and o: "obs = (\<lambda>name. map snd (case name of Blue \<Rightarrow> hb | Cell \<Rightarrow> hc | Wifi \<Rightarrow> hw))"
      by (auto simp: process_report_def bind_err_Inr_iff)
    note pb = process_type_retained [OF b Some]
    note pc = process_type_retained [OF c Some]
    note pw = process_type_retained [OF w Some]
    show ?thesis
    proof (cases name)
      case Blue
      with o pb held_ok_distinct [OF pb(1)] show ?thesis by simp
    next
      case Cell
      with o pc held_ok_distinct [OF pc(1)] show ?thesis by simp
    next
      case Wifi
      with o pw held_ok_distinct [OF pw(1)] show ?thesis by simp
    qed
  qed
  then show "distinct (map (unique_key M) (obs name))"
    and "unique_key M ` set (obs name) = unique_key M ` set (report_candidates M name data)"
    and "\<forall>r \<in> set (obs name). retained M (report_candidates M name data) (unique_key M r) = Some r"
    by simp_all
qed

lemma dd_extend_mset:
  "mset (concat (map snd (dd_extend d k vs))) = mset (concat (map snd d)) + mset vs"
  by (induction d k vs rule: dd_extend.induct) auto

lemma shard_fold_mset:
  "mset (concat (map snd (fold (\<lambda>ob d. dd_append d (f ob) ob) obs d)))
     = mset (concat (map snd d)) + mset obs"
  by (induction obs arbitrary: d) (simp_all add: dd_append_def dd_extend_mset)

lemma queue_fold_mset:
  "mset (concat (map snd (fold (\<lambda>(sid, values) q. dd_extend q (p @ sid) (map g values)) sh q)))
     = mset (concat (map snd q)) + image_mset g (mset (concat (map snd sh)))"
  by (induction sh arbitrary: q) (auto simp: dd_extend_mset)

lemma shard_queue_mset:
  "mset (concat (map snd (shard_queue M name obs))) = mset (map (to_json M) obs)"
proof (cases "obs = []")
  case True
  then show ?thesis by (simp add: shard_queue_def)
next
  case False
  then show ?thesis
    by (simp add: shard_queue_def Let_def queue_fold_mset shard_fold_mset)
qed

lemma reports_loop_obs:
  assumes "reports_loop M reports (observations, obs_count, positions, malformed_reports)
             = Inr (observations', obs_count', positions', malformed_reports')"
  shows "observations' name = observations name @ concat (map (report_obs M name) reports)"
    and "\<forall>data \<in> set reports. \<exists>res. process_report M data = Inr res"
proof -
  have "observations' name = observations name @ concat (map (report_obs M name) reports)
        \<and> (\<forall>data \<in> set reports. \<exists>res. process_report M data = Inr res)"
    using assms
  proof (induction reports arbitrary: observations obs_count positions malformed_reports)
    case Nil
    then show ?case by simp
  next
    case (Cons report reports)
    from Cons.prems obtain obs malformed_obs where
        p: "process_report M report = Inr (obs, malformed_obs)"
      by (auto simp: bind_err_Inr_iff)
    let ?o = "\<lambda>name. if obs name \<noteq> [] then observations name @ obs name else observations name"
    from Cons.prems p obtain cnt ps mr where
        r: "reports_loop M reports (?o, cnt, ps, mr)
              = Inr (observations', obs_count', positions', malformed_reports')"
      by (auto simp: bind_err_Inr_iff Let_def split: if_splits)
    from Cons.IH [OF r] p show ?case
      by (auto simp: report_obs_def)
  qed
  then show "observations' name = observations name @ concat (map (report_obs M name) reports)"
    and "\<forall>data \<in> set reports. \<exists>res. process_report M data = Inr res" by auto
qed

lemma merge_fold_mset:
  "mset (concat (map snd (fold (\<lambda>(queue_id, values) d. dd_extend d queue_id values) oq q)))
     = mset (concat (map snd q)) + mset (concat (map snd oq))"
  by (induction oq arbitrary: q) (auto simp: dd_extend_mset)

lemma process_reports_obs:
  assumes "process_reports M reports userid
             = Inr (obs_queue, malformed_reports, obs_count, positions)"
  shows "mset (concat (map snd (obs_queue name)))
           = mset (map (to_json M) (concat (map (report_obs M name) reports)))"
    and "\<forall>data \<in> set reports. \<exists>res. process_report M data = Inr res"
proof -
  from assms obtain observations where
      l: "reports_loop M reports (\<lambda>name. [], \<lambda>name. (0, 0), [], 0)
            = Inr (observations, obs_count, positions, malformed_reports)"
    and q: "obs_queue = (\<lambda>name. shard_queue M name (observations name))"
    by (auto simp: process_reports_def bind_err_Inr_iff)
  note lo = reports_loop_obs [OF l]
  show "mset (concat (map snd (obs_queue name)))
          = mset (map (to_json M) (concat (map (report_obs M name) reports)))"
    unfolding q using lo(1) [of name] by (simp add: shard_queue_mset)
  show "\<forall>data \<in> set reports. \<exists>res. process_report M data = Inr res" by (rule lo(2))
qed

lemma process_groups_obs:
  assumes "process_groups M groups users (ps, q, scores) = Inr (ps', q', scores')"
  shows "mset (concat (map snd (q' name)))
           = mset (concat (map snd (q name)))
               + mset (map (to_json M) (concat (map (report_obs M name) (concat (map snd groups)))))
       \<and> (\<forall>data \<in> set (concat (map snd groups)). \<exists>res. process_report M data = Inr res)"
  using assms
proof (induction groups arbitrary: ps q scores)
  case Nil
  then show ?case by simp
next
  case (Cons g groups)
  obtain a n reports where g: "g = ((a, n), reports)" by (cases g) auto
  let ?uid = "case map_of users n of None \<Rightarrow> None | Some u \<Rightarrow> u"
  from Cons.prems g obtain oq mr oc positions scores1 where
      pr: "process_reports M reports ?uid = Inr (oq, mr, oc, positions)"
    and r: "process_groups M groups users
              (ps @ positions,
               (\<lambda>datatype. fold (\<lambda>(queue_id, values) d. dd_extend d queue_id values)
                              (oq datatype) (q datatype)),
               scores1) = Inr (ps', q', scores')"
    by (auto simp: bind_err_Inr_iff Let_def)
  note po = process_reports_obs [OF pr]
  from Cons.IH [OF r] po(1) [of name] po(2) g show ?case
    by (auto simp: merge_fold_mset)
qed

lemma mset_concat_map:
  "mset (concat (map f xs)) = sum_mset (image_mset (\<lambda>x. mset (f x)) (mset xs))"
  by (induction xs) simp_all

lemma mset_concat_cong:
  "mset xs = mset ys \<Longrightarrow> mset (concat (map f xs)) = mset (concat (map f ys))"
  by (simp add: mset_concat_map)

lemma dd_extend_keys: "fst ` set (dd_extend d k vs) = insert k (fst ` set d)"
  by (induction d k vs rule: dd_extend.induct) auto

lemma dd_get_extend: "dd_get (dd_extend d k vs) k' = dd_get d k' @ (if k' = k then vs else [])"
  by (induction d k vs rule: dd_extend.induct) (auto simp: dd_get_def)

lemma dd_extend_distinct: "distinct (map fst d) \<Longrightarrow> distinct (map fst (dd_extend d k vs))"
  by (induction d k vs rule: dd_extend.induct) (auto simp: dd_extend_keys)

lemma collect_groups:
  assumes "collect M items (groups, api_keys, nicknames) = Inr (groups', api_keys', nicknames')"
      and "distinct (map fst groups)"
  shows "distinct (map fst groups')
       \<and> fst ` set groups' = fst ` set groups \<union> fst ` set (List.map_filter (submitted M) items)
       \<and> (\<forall>k. dd_get groups' k = dd_get groups k @ reports_of (List.map_filter (submitted M) items) k)
       \<and> mset (concat (map snd groups'))
           = mset (concat (map snd groups)) + mset (map snd (List.map_filter (submitted M) items))"
  using assms
proof (induction items arbitrary: groups api_keys nicknames)
  case Nil
  then show ?case by (simp add: List.map_filter_def reports_of_def)
next
  case (Cons item items)
  from Cons.prems(1) obtain r report where
      f: "py_getitem item ''report'' = Inr r" "format_report M r = Inr report"
    by (auto simp: bind_err_Inr_iff)
  show ?case
  proof (cases "report = []")
    case True
    with Cons.prems(1) f have c: "collect M items (groups, api_keys, nicknames)
        = Inr (groups', api_keys', nicknames')" by simp
    have s: "submitted M item = None" using f True by (simp add: submitted_def)
    from Cons.IH [OF c Cons.prems(2)] s show ?thesis by simp
  next
    case False
    with Cons.prems(1) f obtain a n ka kn where
        g: "py_getitem item ''api_key'' = Inr a" "py_getitem item ''nickname'' = Inr n"
           "hash_key a = Inr ka" "hash_key n = Inr kn"
      and c: "collect M items
              (dd_append groups (ka, kn) report, set_add api_keys ka, set_add nicknames kn)
              = Inr (groups', api_keys', nicknames')"
      by (auto simp: bind_err_Inr_iff)
    have s: "submitted M item = Some ((ka, kn), report)"
      using f g False by (simp add: submitted_def)
    have d: "distinct (map fst (dd_append groups (ka, kn) report))"
      unfolding dd_append_def by (rule dd_extend_distinct [OF Cons.prems(2)])
    note ih = Cons.IH [OF c d]
    have 1: "distinct (map fst groups')" using ih by simp
    have 2: "fst ` set groups'
               = fst ` set groups \<union> fst ` set (List.map_filter (submitted M) (item # items))"
      using ih s by (simp add: dd_append_def dd_extend_keys)
    have 3: "\<forall>k. dd_get groups' k
                 = dd_get groups k @ reports_of (List.map_filter (submitted M) (item # items)) k"
      using ih s by (auto simp: dd_append_def dd_get_extend reports_of_def)
    have 4: "mset (concat (map snd groups'))
               = mset (concat (map snd groups))
                   + mset (map snd (List.map_filter (submitted M) (item # items)))"
      using ih s by (simp add: dd_append_def dd_extend_mset)
    from 1 2 3 4 show ?thesis by blast
  qed
qed

text \<open>
  Claim C1, as the code has it: when \<^verbatim>\<open>_send\<close> returns, the observations enqueued
  for a transmitter type are, as a multiset, the encoded observations of all reports of
  the batch, report by report. Within one report no two of them share a unique key, every
  unique key among the candidates of the report is the key of one of them, and each is
  the observation retained for its key by the contest among the candidates of that
  report: the held one stays if \<^verbatim>\<open>existing.better(new)\<close> holds, and is replaced
  otherwise. Observations of different reports that share a key are all enqueued.
\<close>

theorem dedup_within_report:
  assumes "send M session data = Inr res"
  shows "mset (concat (map snd (obs_queues res name)))
           = mset (map (to_json M)
                    (concat (map (report_obs M name) (map snd (batch_reports M data)))))
       \<and> (\<forall>report \<in> set (map snd (batch_reports M data)).
            distinct (map (unique_key M) (report_obs M name report))
            \<and> unique_key M ` set (report_obs M name report)
                = unique_key M ` set (report_candidates M name report)
            \<and> (\<forall>r \<in> set (report_obs M name report).
                  retained M (report_candidates M name report) (unique_key M r) = Some r))"
proof -
  from assms obtain items groups api_keys nicknames users scores0 session' ps q scores where
      i: "py_iter data = Inr items"
    and c: "collect M items ([], [], []) = Inr (groups, api_keys, nicknames)"
    and p: "process_groups M groups users ([], \<lambda>datatype. [], scores0) = Inr (ps, q, scores)"
    and o: "obs_queues res = q"
    by (auto simp: send_def bind_err_Inr_iff)
  have br: "batch_reports M data = List.map_filter (submitted M) items"
    using i by (simp add: batch_reports_def)
  from collect_groups [OF c] have m: "mset (concat (map snd groups)) = mset (map snd (batch_reports M data))"
    by (simp add: br)
  from process_groups_obs [OF p, of name]
  have 1: "mset (concat (map snd (q name)))
             = mset (map (to_json M) (concat (map (report_obs M name) (concat (map snd groups)))))"
    and 2: "\<forall>data \<in> set (concat (map snd groups)). \<exists>res. process_report M data = Inr res"
    by simp_all
  have e: "mset (concat (map (report_obs M name) (concat (map snd groups))))
             = mset (concat (map (report_obs M name) (map snd (batch_reports M data))))"
    by (rule mset_concat_cong [OF m])
  have "mset (concat (map snd (obs_queues res name)))
          = image_mset (to_json M)
              (mset (concat (map (report_obs M name) (concat (map snd groups)))))"
    unfolding o 1 by (rule mset_map)
  also have "\<dots> = image_mset (to_json M)
                     (mset (concat (map (report_obs M name) (map snd (batch_reports M data)))))"
    by (rule arg_cong [OF e])
  also have "\<dots> = mset (map (to_json M)
                          (concat (map (report_obs M name) (map snd (batch_reports M data)))))"
    by (rule mset_map [symmetric])
  finally have a: "mset (concat (map snd (obs_queues res name)))
           = mset (map (to_json M)
                    (concat (map (report_obs M name) (map snd (batch_reports M data)))))" .
  have s: "set (concat (map snd groups)) = set (map snd (batch_reports M data))"
    using m by (rule mset_eq_setD)
  have b: "\<forall>report \<in> set (map snd (batch_reports M data)).
            distinct (map (unique_key M) (report_obs M name report))
            \<and> unique_key M ` set (report_obs M name report)
                = unique_key M ` set (report_candidates M name report)
            \<and> (\<forall>r \<in> set (report_obs M name report).
                  retained M (report_candidates M name report) (unique_key M r) = Some r)"
  proof
    fix report assume "report \<in> set (map snd (batch_reports M data))"
    with s have "report \<in> set (concat (map snd groups))" by simp
    with 2 have "\<exists>res. process_report M report = Inr res" by (rule bspec)
    then obtain obs malformed where pr: "process_report M report = Inr (obs, malformed)"
      by (metis surj_pair)
    hence "report_obs M name report = obs name" by (simp add: report_obs_def)
    with process_report_retained [OF pr, of name]
    show "distinct (map (unique_key M) (report_obs M name report))
            \<and> unique_key M ` set (report_obs M name report)
                = unique_key M ` set (report_candidates M name report)
            \<and> (\<forall>r \<in> set (report_obs M name report).
                  retained M (report_candidates M name report) (unique_key M r) = Some r)"
      by simp
  qed
  from a b show ?thesis by blast
qed

text \<open>
  Of two candidates with one key, the first is retained if and only if it is better
  than the second.
\<close>

lemma retained_two:
  "filter (\<lambda>c. unique_key M c = k) cs = [a, b] \<Longrightarrow>
   retained M cs k = Some (if better M a b then a else b)"
  by (simp add: retained_def)

lemma format_two_wifi:
  "format_report sample_models two_wifi_external = Inr two_wifi_report"
  by (simp add: format_report_def sample_defs transform_defs two_wifi_external_def
      two_wifi_report_def)

lemma batch_two_wifi:
  "batch_reports sample_models two_wifi_batch
     = [((JStr ''test'', JStr ''alice''), two_wifi_report)]"
proof -
  have "two_wifi_report \<noteq> []" by (simp add: two_wifi_report_def)
  then show ?thesis
    by (simp add: batch_reports_def two_wifi_batch_def envelope_def submitted_def
        format_two_wifi List.map_filter_def)
qed

lemma two_wifi_obs:
  "report_obs sample_models Wifi two_wifi_report
     = [strong_wifi @ [(''lat'', JNum (3 / 2)), (''lon'', JNum (5 / 2))]]"
  by (simp add: report_obs_def process_report_def process_type_def hold_def dict_get_def Let_def
      two_wifi_report_def weak_wifi_def strong_wifi_def model_defs)

lemma send_two_wifi:
  "\<exists>res. send sample_models empty_session two_wifi_batch = Inr res"
  by (simp add: send_defs format_two_wifi [unfolded sample_models_def] two_wifi_batch_def
      envelope_def empty_session_def model_defs two_wifi_report_def weak_wifi_def
      strong_wifi_def)

text \<open>
  A report whose stronger entry comes before a weaker one with the same address: the
  stronger observation alone is enqueued.
\<close>

theorem dedup_within_report_witness:
  "(\<exists>res. send sample_models empty_session two_wifi_batch = Inr res)
   \<and> mset (concat (map snd (enqueued_obs (send sample_models empty_session two_wifi_batch) Wifi)))
       = {#JObj (strong_wifi @ [(''lat'', JNum (3 / 2)), (''lon'', JNum (5 / 2))])#}
   \<and> retained sample_models (report_candidates sample_models Wifi two_wifi_report)
        (JStr ''aa:bb'')
       = Some (strong_wifi @ [(''lat'', JNum (3 / 2)), (''lon'', JNum (5 / 2))])"
proof -
  from send_two_wifi obtain res where
      r: "send sample_models empty_session two_wifi_batch = Inr res" by blast
  have k: "unique_key sample_models (strong_wifi @ [(''lat'', JNum (3 / 2)), (''lon'', JNum (5 / 2))])
             = JStr ''aa:bb''"
    by (simp add: model_defs strong_wifi_def)
  have j: "to_json sample_models = JObj" by (simp add: sample_models_def)
  from dedup_within_report [OF r, of Wifi] r k j show ?thesis
    by (simp add: batch_two_wifi two_wifi_obs enqueued_obs_def)
qed

text \<open>
  A batch of two reports with the same wifi address: both observations are enqueued
  into the queue of the shard.
\<close>

theorem cross_report_duplicates_counterexample:
  "enqueued_obs (send sample_models empty_session sample_batch) Wifi =
     [(''update_wifi_a'',
       [JObj [(''mac'', JStr ''aa:bb''), (''signal'', JNum (- 60)),
              (''lat'', JNum (3 / 2)), (''lon'', JNum (5 / 2))],
        JObj [(''mac'', JStr ''aa:bb''), (''signal'', JNum (- 50)),
              (''lat'', JNum (3 / 2)), (''lon'', JNum (5 / 2))]])]"
  by (simp add: enqueued_obs_def send_defs format_sample [unfolded sample_models_def] sample_batch_def envelope_def
      empty_session_def model_defs)

lemma set_map_filter: "set (List.map_filter f xs) = {y. \<exists>x \<in> set xs. f x = Some y}"
  by (induction xs) (auto split: option.splits)

lemma set_add_props: "set (set_add s x) = insert x (set s)" "distinct s \<Longrightarrow> distinct (set_add s x)"
  by (auto simp: set_add_def)

lemma report_position_getitem:
  assumes "py_getitem (JObj data) ''lat'' = Inr lat" and "py_getitem (JObj data) ''lon'' = Inr lon"
      and "hash_key lat = Inr hlat" and "hash_key lon = Inr hlon"
  shows "report_position data = Some (hlat, hlon)"
  using assms by (auto simp: report_position_def split: option.splits)

lemma reports_loop_positions:
  assumes "reports_loop M reports (observations, obs_count, positions, malformed_reports)
             = Inr (observations', obs_count', positions', malformed_reports')"
      and "distinct positions"
  shows "distinct positions' \<and>
         set positions' = set positions
            \<union> set (List.map_filter report_position (filter (valid_report M) reports))"
  using assms
proof (induction reports arbitrary: observations obs_count positions malformed_reports)
  case Nil
  then show ?case by simp
next
  case (Cons report reports)
  from Cons.prems(1) obtain obs malformed_obs where
      p: "process_report M report = Inr (obs, malformed_obs)"
    by (auto simp: bind_err_Inr_iff)
  have v: "valid_report M report \<longleftrightarrow> (obs Blue \<noteq> [] \<or> obs Cell \<noteq> [] \<or> obs Wifi \<noteq> [])"
    using p by (simp add: valid_report_def report_obs_def)
  show ?case
  proof (cases "valid_report M report")
    case True
    with Cons.prems(1) p v obtain lat lon hlat hlon o' c' where
        g: "py_getitem (JObj report) ''lat'' = Inr lat" "py_getitem (JObj report) ''lon'' = Inr lon"
           "hash_key lat = Inr hlat" "hash_key lon = Inr hlon"
      and r: "reports_loop M reports (o', c', set_add positions (hlat, hlon), malformed_reports)
                = Inr (observations', obs_count', positions', malformed_reports')"
      by (auto simp: bind_err_Inr_iff Let_def)
    have rp: "report_position report = Some (hlat, hlon)"
      by (rule report_position_getitem [OF g])
    from Cons.IH [OF r] Cons.prems(2) True rp show ?thesis
      by (auto simp: set_add_props)
  next
    case False
    with Cons.prems(1) p v obtain o' c' where
        r: "reports_loop M reports (o', c', positions, malformed_reports + 1)
                = Inr (observations', obs_count', positions', malformed_reports')"
      by (auto simp: bind_err_Inr_iff Let_def)
    from Cons.IH [OF r Cons.prems(2)] False show ?thesis by simp
  qed
qed

lemma process_reports_positions:
  assumes "process_reports M reports userid
             = Inr (obs_queue, malformed_reports, obs_count, positions)"
  shows "length positions = distinct_positions M reports"
proof -
  from assms obtain observations where
      l: "reports_loop M reports (\<lambda>name. [], \<lambda>name. (0, 0), [], 0)
            = Inr (observations, obs_count, positions, malformed_reports)"
    by (auto simp: process_reports_def bind_err_Inr_iff)
  from reports_loop_positions [OF l] have d: "distinct positions"
    and s: "set positions = set (List.map_filter report_position (filter (valid_report M) reports))"
    by simp_all
  have "length positions = card (set positions)" using d by (simp add: distinct_card)
  also have "\<dots> = distinct_positions M reports"
    unfolding s distinct_positions_def by (simp add: length_remdups_card_conv)
  finally show ?thesis .
qed

lemma process_user_resolves:
  "process_user session nickname = Inr (uid, session') \<Longrightarrow> uid \<noteq> None \<longleftrightarrow> resolves nickname"
proof (cases nickname)
  case (JStr s)
  assume p: "process_user session nickname = Inr (uid, session')"
  show ?thesis
  proof (cases "s \<noteq> [] \<and> 2 \<le> length s \<and> length s \<le> 128")
    case True
    have "uid \<noteq> None"
    proof (cases "map_of (user_rows session) s")
      case None
      with p JStr True have "uid = Some (next_id session)" by (simp add: process_user_def)
      then show ?thesis by simp
    next
      case (Some old)
      with p JStr True have "uid = Some old" by (simp add: process_user_def)
      then show ?thesis by simp
    qed
    with True JStr show ?thesis by (simp add: resolves_def)
  next
    case False
    with p JStr have "uid = None"
      by (auto simp: process_user_def split: if_splits)
    moreover have "\<not> resolves nickname" using False JStr by (auto simp: resolves_def)
    ultimately show ?thesis by simp
  qed
qed (auto simp: process_user_def resolves_def split: if_splits)

lemma zero_update:
  "\<forall>(k, v) \<in> set al. v = (0::nat) \<Longrightarrow> \<forall>(k, v) \<in> set (AList.update x 0 al). v = 0"
  using set_update_subset [of x 0 al] by auto

lemma resolve_users_props:
  assumes "resolve_users session nicknames (users, scores) = Inr (users', scores', session')"
      and "users_ok users scores" and "\<forall>(k, v) \<in> set scores. v = 0"
      and "distinct (map fst scores)"
  shows "users_ok users' scores' \<and> (\<forall>(k, v) \<in> set scores'. v = 0)
       \<and> distinct (map fst scores')
       \<and> set nicknames \<union> dom (map_of users) \<subseteq> dom (map_of users')"
  using assms
proof (induction nicknames arbitrary: session users scores)
  case Nil
  then show ?case by auto
next
  case (Cons n nicknames)
  from Cons.prems(1) obtain uid s1 where
      u: "process_user session n = Inr (uid, s1)"
    and r: "resolve_users s1 nicknames (AList.update n uid users, AList.update uid 0 scores)
              = Inr (users', scores', session')"
    by (auto simp: bind_err_Inr_iff)
  have ok: "users_ok (AList.update n uid users) (AList.update uid 0 scores)"
    unfolding users_ok_def
  proof (intro allI impI)
    fix n' uid'
    assume m: "map_of (AList.update n uid users) n' = Some uid'"
    show "(uid' \<noteq> None \<longleftrightarrow> resolves n') \<and> uid' \<in> fst ` set (AList.update uid 0 scores)"
    proof (cases "n' = n")
      case True
      with m have "uid' = uid" by (simp add: AList.update_conv')
      with True process_user_resolves [OF u] show ?thesis
        by (simp add: AList.dom_update)
    next
      case False
      with m have "map_of users n' = Some uid'" by (simp add: AList.update_conv')
      with Cons.prems(2) show ?thesis
        by (auto simp: users_ok_def AList.dom_update)
    qed
  qed
  have z: "\<forall>(k, v) \<in> set (AList.update uid 0 scores). v = 0"
    by (rule zero_update [OF Cons.prems(3)])
  have d: "distinct (map fst (AList.update uid 0 scores))"
    using Cons.prems(4) by (simp add: AList.distinct_update)
  from Cons.IH [OF r ok z d]
  have a: "users_ok users' scores'" and b: "\<forall>(k, v) \<in> set scores'. v = 0"
    and c: "distinct (map fst scores')"
    and s: "set nicknames \<union> dom (map_of (AList.update n uid users)) \<subseteq> dom (map_of users')"
    by simp_all
  have i: "insert n (dom (map_of users)) \<subseteq> dom (map_of (AList.update n uid users))"
    by (auto simp: AList.update_conv')
  have "set (n # nicknames) \<union> dom (map_of users) \<subseteq> dom (map_of users')"
    using s i unfolding list.set by blast
  with a b c show ?case by blast
qed

lemma collect_nicknames:
  assumes "collect M items (groups, api_keys, nicknames) = Inr (groups', api_keys', nicknames')"
      and "\<forall>((a, n), rs) \<in> set groups. n \<in> set nicknames"
  shows "\<forall>((a, n), rs) \<in> set groups'. n \<in> set nicknames'"
  using assms
proof (induction items arbitrary: groups api_keys nicknames)
  case Nil
  then show ?case by simp
next
  case (Cons item items)
  from Cons.prems(1) obtain r report where
      f: "py_getitem item ''report'' = Inr r" "format_report M r = Inr report"
    by (auto simp: bind_err_Inr_iff)
  show ?case
  proof (cases "report = []")
    case True
    with Cons.prems(1) f have "collect M items (groups, api_keys, nicknames)
        = Inr (groups', api_keys', nicknames')" by simp
    from Cons.IH [OF this Cons.prems(2)] show ?thesis .
  next
    case False
    with Cons.prems(1) f obtain ka kn where
        c: "collect M items
              (dd_append groups (ka, kn) report, set_add api_keys ka, set_add nicknames kn)
              = Inr (groups', api_keys', nicknames')"
      by (auto simp: bind_err_Inr_iff)
    have "\<forall>((a, n), rs) \<in> set (dd_append groups (ka, kn) report). n \<in> set (set_add nicknames kn)"
    proof (clarify)
      fix a n rs assume "((a, n), rs) \<in> set (dd_append groups (ka, kn) report)"
      from dd_extend_cases [OF this [unfolded dd_append_def]]
      have "((a, n), rs) \<in> set groups \<or> (a, n) = (ka, kn)" by blast
      with Cons.prems(2) show "n \<in> set (set_add nicknames kn)"
        by (auto simp: set_add_props)
    qed
    from Cons.IH [OF c this] show ?thesis .
  qed
qed

lemma sum_update:
  "distinct (map fst al) \<Longrightarrow> map_of al k = Some v \<Longrightarrow>
   sum_list (map snd (AList.update k w al)) + v = sum_list (map snd al) + (w::nat)"
proof (induction al)
  case Nil
  then show ?case by simp
next
  case (Cons kv al)
  obtain k' v' where kv: "kv = (k', v')" by (cases kv)
  show ?case
  proof (cases "k' = k")
    case True
    with Cons.prems kv show ?thesis by simp
  next
    case False
    with Cons.prems kv have "distinct (map fst al)" "map_of al k = Some v" by simp_all
    from Cons.IH [OF this] False kv show ?thesis by simp
  qed
qed

lemma scores_ok_update:
  "scores_ok scores \<Longrightarrow> scores_ok (AList.update (Some u) w scores)"
  using set_update_subset [of "Some u" w scores]
  by (auto simp: scores_ok_def AList.distinct_update)

lemma process_groups_sum:
  assumes "process_groups M groups users (ps, q, scores) = Inr (ps', q', scores')"
      and "scores_ok scores"
      and "\<forall>((a, n), rs) \<in> set groups.
             \<exists>uid. map_of users n = Some uid \<and> (uid \<noteq> None \<longleftrightarrow> resolves n)"
  shows "sum_list (map snd scores') = sum_list (map snd scores) + groups_credit M groups
       \<and> scores_ok scores'"
  using assms
proof (induction groups arbitrary: ps q scores)
  case Nil
  then show ?case by (simp add: groups_credit_def)
next
  case (Cons g groups)
  obtain a n reports where g: "g = ((a, n), reports)" by (cases g) auto
  from Cons.prems(3) g obtain uid where
      uid: "map_of users n = Some uid" "uid \<noteq> None \<longleftrightarrow> resolves n" by auto
  from Cons.prems(1) g uid(1) obtain oq mr oc positions scores1 ps1 q1 where
      pr: "process_reports M reports uid = Inr (oq, mr, oc, positions)"
    and s1: "(case uid of
                None \<Rightarrow> Inr scores
              | Some u \<Rightarrow>
                  (case map_of scores uid of
                     None \<Rightarrow> Inl KeyError
                   | Some v \<Rightarrow> Inr (AList.update uid (v + length positions) scores)))
             = Inr scores1"
    and r: "process_groups M groups users (ps1, q1, scores1) = Inr (ps', q', scores')"
    by (auto simp: bind_err_Inr_iff Let_def)
  have len: "length positions = distinct_positions M reports"
    by (rule process_reports_positions [OF pr])
  have step: "sum_list (map snd scores1)
                = sum_list (map snd scores)
                    + (if resolves n then distinct_positions M reports else 0)
              \<and> scores_ok scores1"
  proof (cases uid)
    case None
    with s1 uid(2) Cons.prems(2) show ?thesis by simp
  next
    case (Some u)
    with s1 obtain v where v: "map_of scores (Some u) = Some v"
      and e: "scores1 = AList.update (Some u) (v + length positions) scores"
      by (auto split: option.splits)
    have d: "distinct (map fst scores)" using Cons.prems(2) by (simp add: scores_ok_def)
    from sum_update [OF d v, of "v + length positions"]
    have "sum_list (map snd scores1) = sum_list (map snd scores) + length positions"
      unfolding e by simp
    moreover have "scores_ok scores1"
      unfolding e by (rule scores_ok_update [OF Cons.prems(2)])
    ultimately show ?thesis using Some uid(2) len by simp
  qed
  have rest: "\<forall>((a, n), rs) \<in> set groups.
             \<exists>uid. map_of users n = Some uid \<and> (uid \<noteq> None \<longleftrightarrow> resolves n)"
    using Cons.prems(3) by simp
  from Cons.IH [OF r conjunct2 [OF step] rest] step g show ?case
    by (simp add: groups_credit_def)
qed

lemma process_score_sum:
  "\<forall>(k, v) \<in> set scores. k = None \<longrightarrow> v = 0 \<Longrightarrow>
   sum_list (map snd (concat (map (\<lambda>(userid, score_value). process_score userid score_value)
                                scores)))
     = sum_list (map snd scores)"
  by (induction scores) (auto simp: process_score_def split: option.splits)

lemma credit_of_groups:
  assumes "distinct (map fst groups)" and "fst ` set groups = fst ` set brs"
      and "\<forall>k. dd_get groups k = reports_of brs k"
  shows "groups_credit M groups = credited M brs"
proof -
  let ?g = "\<lambda>submitter. if resolves (snd submitter)
                         then distinct_positions M (reports_of brs submitter) else 0"
  have p: "reports = reports_of brs (a, n)" if "((a, n), reports) \<in> set groups" for a n reports
  proof -
    from that assms(1) have "map_of groups (a, n) = Some reports" by simp
    hence "dd_get groups (a, n) = reports" by (simp add: dd_get_def)
    with assms(3) show ?thesis by simp
  qed
  have "map (\<lambda>((api_key, nickname), reports).
               if resolves nickname then distinct_positions M reports else 0) groups
          = map (\<lambda>x. ?g (fst x)) groups"
    by (auto dest!: p)
  hence "groups_credit M groups = sum_list (map (\<lambda>x. ?g (fst x)) groups)"
    unfolding groups_credit_def by (rule arg_cong)
  also have "\<dots> = sum_list (map ?g (map fst groups))"
    by (simp add: comp_def)
  also have "\<dots> = sum ?g (set (map fst groups))"
    by (rule sum_list_distinct_conv_sum_set [OF assms(1)])
  also have "\<dots> = sum ?g (set (remdups (map fst brs)))"
    using assms(2) by simp
  also have "\<dots> = sum_list (map ?g (remdups (map fst brs)))"
    by (rule sum_list_distinct_conv_sum_set [symmetric]) simp
  finally show ?thesis by (simp add: credited_def)
qed

text \<open>
  Claim C2, as the code has it: when \<^verbatim>\<open>_send\<close> returns, the values of the
  enqueued score entries add up to the credit of the batch: for every submitter (one
  \<^verbatim>\<open>api_key\<close> and nickname) whose nickname resolves to a user id, the number of
  distinct positions among the reports of that submitter with a valid observation.
\<close>

theorem send_scores_sum:
  assumes "send M session data = Inr res"
  shows "sum_list (map snd (score_queue res)) = credited M (batch_reports M data)"
proof -
  from assms obtain items groups api_keys nicknames users scores0 session' ps q scores where
      i: "py_iter data = Inr items"
    and c: "collect M items ([], [], []) = Inr (groups, api_keys, nicknames)"
    and u: "resolve_users session nicknames ([], []) = Inr (users, scores0, session')"
    and p: "process_groups M groups users ([], \<lambda>datatype. [], scores0) = Inr (ps, q, scores)"
    and r: "score_queue res
              = concat (map (\<lambda>(userid, score_value). process_score userid score_value) scores)"
    by (auto simp: send_def bind_err_Inr_iff)
  have br: "batch_reports M data = List.map_filter (submitted M) items"
    using i by (simp add: batch_reports_def)
  from collect_groups [OF c] have cg: "distinct (map fst groups)"
      "fst ` set groups = fst ` set (batch_reports M data)"
      "\<forall>k. dd_get groups k = reports_of (batch_reports M data) k"
    by (simp_all add: br dd_get_def)
  have bg: "groups_credit M groups = credited M (batch_reports M data)"
    by (rule credit_of_groups [OF cg])
  have gn: "\<forall>((a, n), rs) \<in> set groups. n \<in> set nicknames"
    by (rule collect_nicknames [OF c]) simp
  from resolve_users_props [OF u] have uo: "users_ok users scores0"
    and z: "\<forall>(k, v) \<in> set scores0. v = 0" and d: "distinct (map fst scores0)"
    and dn: "set nicknames \<subseteq> dom (map_of users)"
    by (simp_all add: users_ok_def)
  have so: "scores_ok scores0" using z d by (auto simp: scores_ok_def)
  have z0: "sum_list (map snd scores0) = 0" using z by (induction scores0) auto
  have gu: "\<forall>((a, n), rs) \<in> set groups.
             \<exists>uid. map_of users n = Some uid \<and> (uid \<noteq> None \<longleftrightarrow> resolves n)"
  proof (clarify)
    fix a n rs assume "((a, n), rs) \<in> set groups"
    with gn dn obtain uid where "map_of users n = Some uid" by fastforce
    with uo show "\<exists>uid. map_of users n = Some uid \<and> (uid \<noteq> None \<longleftrightarrow> resolves n)"
      by (auto simp: users_ok_def)
  qed
  from process_groups_sum [OF p so gu] z0
  have s: "sum_list (map snd scores) = groups_credit M groups" and ok: "scores_ok scores"
    by simp_all
  have "sum_list (map snd (score_queue res)) = sum_list (map snd scores)"
    unfolding r by (rule process_score_sum) (use ok in \<open>auto simp: scores_ok_def\<close>)
  with s bg show ?thesis by simp
qed

lemma batch_sample:
  "batch_reports sample_models sample_batch
     = [((JStr ''test'', JStr ''alice''),
         [(''lat'', JNum (3 / 2)), (''lon'', JNum (5 / 2)),
          (''wifi'', JList [JObj [(''mac'', JStr ''aa:bb''), (''signal'', JNum (- 60))]])]),
        ((JStr ''test'', JStr ''alice''),
         [(''lat'', JNum (3 / 2)), (''lon'', JNum (5 / 2)),
          (''wifi'', JList [JObj [(''mac'', JStr ''aa:bb''), (''signal'', JNum (- 50))]])])]"
  by (simp add: batch_reports_def sample_batch_def envelope_def submitted_def
      format_sample List.map_filter_def)

lemma valid_sample:
  "valid_report sample_models
     [(''lat'', JNum (3 / 2)), (''lon'', JNum (5 / 2)),
      (''wifi'', JList [JObj [(''mac'', JStr ''aa:bb''), (''signal'', JNum s)]])]"
  by (simp add: valid_report_def report_obs_def process_report_def process_type_def hold_def
      dict_get_def Let_def model_defs)

lemma credited_sample:
  "credited sample_models (batch_reports sample_models sample_batch) = 1"
  by (simp add: batch_sample credited_def reports_of_def resolves_def distinct_positions_def
      valid_sample List.map_filter_def report_position_def)

text \<open>
  For the batch of two valid reports of one submitter at the same position, both sides
  are 1.
\<close>

theorem send_scores_sum_witness:
  "(\<exists>res. send sample_models empty_session sample_batch = Inr res)
   \<and> sum_list (map snd (enqueued_scores (send sample_models empty_session sample_batch)))
       = credited sample_models (batch_reports sample_models sample_batch)
   \<and> credited sample_models (batch_reports sample_models sample_batch) = 1"
proof -
  have "\<exists>res. send sample_models empty_session sample_batch = Inr res"
    by (simp add: send_defs format_sample [unfolded sample_models_def] sample_batch_def
        envelope_def empty_session_def model_defs)
  then obtain res where r: "send sample_models empty_session sample_batch = Inr res" by blast
  from send_scores_sum [OF r] r credited_sample show ?thesis
    by (simp add: enqueued_scores_def)
qed

text \<open>
  A batch of two valid reports of one user at the same position: the user is credited
  with one position, not with two reports.
\<close>

theorem score_counts_positions_counterexample:
  "enqueued_scores (send sample_models empty_session sample_batch) = [(1, 1)]"
  by (simp add: enqueued_scores_def send_defs format_sample [unfolded sample_models_def] sample_batch_def envelope_def
      empty_session_def model_defs)


section \<open>The transform and the dispatcher return on inputs of the documented shape\<close>

lemma map_dict_returns: "is_dict v \<Longrightarrow> \<exists>value. map_dict v fm = Inr value"
proof -
  assume "is_dict v"
  then obtain e where "v = JObj e" by (cases v) (simp_all add: is_dict_def)
  with map_dict_loop_obj [of e fm "[]"] show ?thesis by (auto simp: map_dict_def)
qed

lemma parse_list_loop_returns:
  "list_all is_dict xs \<Longrightarrow> \<exists>values'. parse_list_loop xs fm values = Inr values'"
proof (induction xs arbitrary: "values")
  case Nil
  then show ?case by simp
next
  case (Cons x xs)
  from Cons.prems have "is_dict x" and r: "list_all is_dict xs" by simp_all
  from map_dict_returns [OF this(1), of fm] obtain v where "map_dict x fm = Inr v" by blast
  with Cons.IH [OF r] show ?case by simp
qed

lemma parse_list_returns:
  "dict_list d (fst key_map) \<Longrightarrow> \<exists>res. parse_list (JObj d) report key_map fm = Inr res"
proof -
  assume a: "dict_list d (fst key_map)"
  show ?thesis
  proof (cases "map_of d (fst key_map)")
    case None
    then show ?thesis by (simp add: parse_list_def)
  next
    case (Some v)
    with a obtain xs where v: "v = JList xs" and l: "list_all is_dict xs"
      by (cases v) (simp_all add: dict_list_def)
    from parse_list_loop_returns [OF l, of fm "[]"] obtain vs where
        "parse_list_loop xs fm [] = Inr vs" by blast
    with Some v show ?thesis by (simp add: parse_list_def)
  qed
qed

lemma parse_dict_returns:
  "(if truthy (dict_get d (fst key_map)) then is_dict (dict_get d (fst key_map)) else True) \<Longrightarrow>
   \<exists>res. parse_dict (JObj d) report key_map fm = Inr res"
proof (cases "truthy (dict_get d (fst key_map))")
  case True
  assume "if truthy (dict_get d (fst key_map)) then is_dict (dict_get d (fst key_map)) else True"
  with True have "is_dict (dict_get d (fst key_map))" by simp
  from map_dict_returns [OF this, of fm] True show ?thesis
    by (auto simp: parse_dict_def)
next
  case False
  then show ?thesis by (simp add: parse_dict_def)
qed

lemma transform_returns:
  assumes "well_shaped item"
  shows "\<exists>report. InternalTransform_call item = Inr report"
proof -
  from assms obtain d where d: "item = JObj d" by (cases item) (simp_all add: well_shaped_def)
  with assms have p: "if truthy (dict_get d ''position'') then is_dict (dict_get d ''position'') else True"
    and b: "dict_list d ''bluetoothBeacons''" and c: "dict_list d ''cellTowers''"
    and w: "dict_list d ''wifiAccessPoints''"
    by (simp_all add: well_shaped_def)
  have f: "fst position_id = ''position''" "fst blue_id = ''bluetoothBeacons''"
      "fst cell_id = ''cellTowers''" "fst wifi_id = ''wifiAccessPoints''"
    by (simp_all add: position_id_def blue_id_def cell_id_def wifi_id_def)
  from parse_dict_returns [of d position_id "[]" position_map, unfolded f, OF p]
  obtain r0 pos where 0: "parse_dict (JObj d) [] position_id position_map = Inr (r0, pos)"
    by fastforce
  let ?r1 = "if truthy (dict_get d ''timestamp'')
             then AList.update ''timestamp'' (dict_get d ''timestamp'') r0 else r0"
  from parse_list_returns [of d blue_id ?r1 blue_map, unfolded f, OF b]
  obtain r2 blues where 1: "parse_list (JObj d) ?r1 blue_id blue_map = Inr (r2, blues)"
    by fastforce
  from parse_list_returns [of d cell_id r2 cell_map, unfolded f, OF c]
  obtain r3 cells where 2: "parse_list (JObj d) r2 cell_id cell_map = Inr (r3, cells)"
    by fastforce
  from parse_list_returns [of d wifi_id r3 wifi_map, unfolded f, OF w]
  obtain r4 wifis where 3: "parse_list (JObj d) r3 wifi_id wifi_map = Inr (r4, wifis)"
    by fastforce
  from d 0 1 2 3 show ?thesis
    by (simp add: InternalTransform_call_def Let_def)
qed

lemma group_items_returns:
  assumes "list_all well_formed_envelope data"
      and "\<forall>k \<in> fst ` set grouped. string_or_null k"
  shows "\<exists>grouped'. group_items data grouped = Inr grouped'
           \<and> (\<forall>k \<in> fst ` set grouped'. string_or_null k)"
  using assms
proof (induction data arbitrary: grouped)
  case Nil
  then show ?case by simp
next
  case (Cons item data)
  from Cons.prems(1) obtain d a n r where i: "item = JObj d"
    and a: "map_of d ''api_key'' = Some a" "string_or_null a"
    and n: "map_of d ''nickname'' = Some n" and r: "map_of d ''report'' = Some r"
    by (cases item) (auto simp: well_formed_envelope_def split: option.splits)
  from a(2) have h: "hash_key a = Inr a" by (cases a) (simp_all add: string_or_null_def)
  let ?g = "dd_append grouped a
              (JObj [(''api_key'', a), (''nickname'', n), (''report'', r)])"
  have "\<forall>k \<in> fst ` set ?g. string_or_null k"
    using Cons.prems(2) a(2) by (simp add: dd_append_def dd_extend_keys)
  moreover have "list_all well_formed_envelope data" using Cons.prems(1) by simp
  ultimately obtain grouped' where "group_items data ?g = Inr grouped'"
      "\<forall>k \<in> fst ` set grouped'. string_or_null k"
    using Cons.IH by blast
  with i a n r h show ?case by simp
qed

lemma queue_key_returns: "string_or_null k \<Longrightarrow> \<exists>qk. queue_key q k = Inr qk"
  by (cases k) (simp_all add: string_or_null_def queue_key_def)

lemma enqueue_group_returns:
  "string_or_null k \<Longrightarrow> \<exists>ops. enqueue_group k items queues = Inr ops"
proof (induction queues)
  case Nil
  then show ?case by simp
next
  case (Cons queue queues)
  from Cons.IH [OF Cons.prems] obtain ops where "enqueue_group k items queues = Inr ops" by blast
  moreover from queue_key_returns [OF Cons.prems, of queue] obtain qk where
      "queue_key queue k = Inr qk" by blast
  ultimately show ?case by simp
qed

lemma enqueue_groups_returns:
  "\<forall>k \<in> fst ` set grouped. string_or_null k \<Longrightarrow>
   \<exists>ops. enqueue_groups grouped queues = Inr ops"
proof (induction grouped)
  case Nil
  then show ?case by simp
next
  case (Cons g grouped)
  obtain k items where g: "g = (k, items)" by (cases g)
  with Cons.prems have "string_or_null k" by simp
  from enqueue_group_returns [OF this, of items queues] obtain ops1 where
      "enqueue_group k items queues = Inr ops1" by blast
  moreover from Cons.IH Cons.prems obtain ops2 where
      "enqueue_groups grouped queues = Inr ops2" by auto
  ultimately show ?case using g by simp
qed

lemma dispatcher_returns:
  assumes "list_all well_formed_envelope data"
  shows "\<exists>ops. IncomingQueue_call export_queues data = Inr ops"
proof -
  from group_items_returns [OF assms, of "[]"] obtain grouped where
      g: "group_items data [] = Inr grouped" "\<forall>k \<in> fst ` set grouped. string_or_null k"
    by auto
  from enqueue_groups_returns [OF g(2), of export_queues] g(1) show ?thesis
    by (auto simp: IncomingQueue_call_def)
qed


end
